theory Spec2Isabelle
  imports Complex_Main "HOL-Library.Word" "HOL-Library.Sublist"
begin

section \<open>Strings and thrown values\<close>

text \<open>
  A JavaScript string is modelled by its UTF-8 bytes, a \<^typ>\<open>string\<close>. Every literal and
  every character class of the program is ASCII, so a comparison, a substring test or a
  pattern match on the bytes decides what the program decides on the code units.

  A \<open>catch\<close> receives any value. The program reads \<open>message\<close> from instances of \<open>Error\<close> and
  names every other value \<open>Unknown error\<close>.
\<close>

datatype thrown = Error string | NonError

fun messageOf :: "thrown \<Rightarrow> string" where
  "messageOf (Error m) = m"
| "messageOf NonError = ''Unknown error''"

text \<open>\<open>haystack.includes(needle)\<close>: the needle occurs as a contiguous run.\<close>

fun starts_with :: "string \<Rightarrow> string \<Rightarrow> bool" where
  "starts_with s [] = True"
| "starts_with [] (n # ns) = False"
| "starts_with (c # s) (n # ns) = (c = n \<and> starts_with s ns)"

fun str_includes :: "string \<Rightarrow> string \<Rightarrow> bool" where
  "str_includes [] n = (n = [])"
| "str_includes (c # s) n = (starts_with (c # s) n \<or> str_includes s n)"

text \<open>Decimal rendering of a non-negative integer, as a template literal prints it.\<close>

definition digit_char :: "nat \<Rightarrow> char" where
  "digit_char d = ''0123456789'' ! (d mod 10)"

fun show_nat :: "nat \<Rightarrow> string" where
  "show_nat n = (if n < 10 then [digit_char n] else show_nat (n div 10) @ [digit_char n])"

declare show_nat.simps [simp del]

section \<open>utils/version.ts\<close>

record ParsedVersion =
  modelCode :: string
  version :: string
  regionCode :: string
  fullVersion :: string

subsection \<open>The regular expression of parseVersion\<close>

text \<open>
  The pattern \<^verbatim>\<open>/^(CPH\d+)_(\d+\.\d+\.\d+\.\d+)\(([A-Z0-9]+)\)$/\<close> uses anchors, literal
  characters, capture groups that do not nest, and the greedy \<open>+\<close> on two character
  classes. It is kept as data and run by a backtracking matcher, as the engine of the
  language runs it: \<open>+\<close> takes one character and then as many more as it can, giving them
  back one at a time when the rest of the pattern fails.
\<close>

datatype cls = Digit | UpperOrDigit

fun in_cls :: "cls \<Rightarrow> char \<Rightarrow> bool" where
  "in_cls Digit c = (c \<in> set ''0123456789'')"
| "in_cls UpperOrDigit c = (c \<in> set ''ABCDEFGHIJKLMNOPQRSTUVWXYZ0123456789'')"

datatype rx_item = Bol | Eol | Lit char | Plus cls | Star cls | Open | Close

text \<open>The text of the open capture group, if one is open, grows with every character taken.\<close>

definition ext :: "string \<Rightarrow> string option \<Rightarrow> string option" where
  "ext xs cur = map_option (\<lambda>g. g @ xs) cur"

text \<open>
  \<open>rx_match items s pos done cur\<close>: match the rest of the pattern at the rest \<open>s\<close> of the
  input, which starts at index \<open>pos\<close>; \<open>done\<close> holds the closed groups, \<open>cur\<close> the open one.
  The result is the list of captured groups. \<open>Star\<close> is the tail of a \<open>+\<close> loop after its
  first character.
\<close>

fun rx_match :: "rx_item list \<Rightarrow> string \<Rightarrow> nat \<Rightarrow> string list \<Rightarrow> string option \<Rightarrow> string list option" where
  "rx_match [] s pos done cur = Some done"
| "rx_match (Bol # r) s pos done cur = (if pos = 0 then rx_match r s pos done cur else None)"
| "rx_match (Eol # r) s pos done cur = (if s = [] then rx_match r s pos done cur else None)"
| "rx_match (Open # r) s pos done cur = rx_match r s pos done (Some [])"
| "rx_match (Close # r) s pos done cur =
     (case cur of None \<Rightarrow> None | Some g \<Rightarrow> rx_match r s pos (done @ [g]) None)"
| "rx_match (Lit c # r) [] pos done cur = None"
| "rx_match (Lit c # r) (x # s) pos done cur =
     (if x = c then rx_match r s (Suc pos) done (ext [x] cur) else None)"
| "rx_match (Plus k # r) [] pos done cur = None"
| "rx_match (Plus k # r) (x # s) pos done cur =
     (if in_cls k x then rx_match (Star k # r) s (Suc pos) done (ext [x] cur) else None)"
| "rx_match (Star k # r) [] pos done cur = rx_match r [] pos done cur"
| "rx_match (Star k # r) (x # s) pos done cur =
     (if in_cls k x
      then (case rx_match (Star k # r) s (Suc pos) done (ext [x] cur) of
              Some m \<Rightarrow> Some m
            | None \<Rightarrow> rx_match r (x # s) pos done cur)
      else rx_match r (x # s) pos done cur)"

text \<open>
  \<open>String.prototype.match\<close> with a pattern that has no \<open>g\<close> flag: the leftmost start index
  at which the pattern matches, \<open>null\<close> when there is none.
\<close>

fun rx_search :: "rx_item list \<Rightarrow> string \<Rightarrow> nat \<Rightarrow> string list option" where
  "rx_search p [] pos = rx_match p [] pos [] None"
| "rx_search p (x # s) pos =
     (case rx_match p (x # s) pos [] None of
        Some m \<Rightarrow> Some m
      | None \<Rightarrow> rx_search p s (Suc pos))"

definition version_re :: "rx_item list" where
  "version_re =
     [Bol,
      Open, Lit CHR ''C'', Lit CHR ''P'', Lit CHR ''H'', Plus Digit, Close,
      Lit CHR ''_'',
      Open, Plus Digit, Lit CHR ''.'', Plus Digit, Lit CHR ''.'', Plus Digit, Lit CHR ''.'',
            Plus Digit, Close,
      Lit CHR ''('',
      Open, Plus UpperOrDigit, Close,
      Lit CHR '')'',
      Eol]"

definition parseVersion :: "string \<Rightarrow> ParsedVersion option" where
  "parseVersion versionString =
     (case rx_search version_re versionString 0 of
        Some [m1, m2, m3] \<Rightarrow>
          Some \<lparr>modelCode = m1, version = m2, regionCode = m3, fullVersion = versionString\<rparr>
      | _ \<Rightarrow> None)"

definition isOnePlusOpen :: "string \<Rightarrow> bool" where
  "isOnePlusOpen mc = (mc = ''CPH2551'')"

text \<open>
  The grammar of a firmware identifier in words: the letters \<open>CPH\<close> and one or more decimal
  digits (the model code), an underscore, four runs of one or more decimal digits separated
  by dots (the version), and, in parentheses, one or more characters that are upper-case
  Latin letters or decimal digits (the region code), with nothing before or after.
\<close>

definition digits1 :: "string \<Rightarrow> bool" where
  "digits1 s = (s \<noteq> [] \<and> (\<forall>x\<in>set s. in_cls Digit x))"

definition region1 :: "string \<Rightarrow> bool" where
  "region1 s = (s \<noteq> [] \<and> (\<forall>x\<in>set s. in_cls UpperOrDigit x))"

definition version_shape :: "string \<Rightarrow> string \<Rightarrow> string \<Rightarrow> string \<Rightarrow> bool" where
  "version_shape m v rg raw =
     ((\<exists>ds. digits1 ds \<and> m = ''CPH'' @ ds) \<and>
      (\<exists>a b c d. digits1 a \<and> digits1 b \<and> digits1 c \<and> digits1 d \<and>
         v = a @ ''.'' @ b @ ''.'' @ c @ ''.'' @ d) \<and>
      region1 rg \<and>
      raw = m @ ''_'' @ v @ ''('' @ rg @ '')'')"

text \<open>
  \<open>formatFileSize\<close>. For a byte count below \<open>2^53\<close> the quotients by 1024 and by 1024 * 1024
  are exact in double precision, and \<open>toFixed(1)\<close> prints the nearest tenth, the larger one on
  a tie: the integer \<open>n\<close> of tenths is \<open>floor (10 * x + 1/2)\<close>.
\<close>

definition toFixed1 :: "nat \<Rightarrow> nat \<Rightarrow> string" where
  "toFixed1 num den =
     (let n = (20 * num + den) div (2 * den)
      in show_nat (n div 10) @ ''.'' @ [digit_char n])"

definition formatFileSize :: "nat \<Rightarrow> string" where
  "formatFileSize bytes =
     (if bytes < 1024 then show_nat bytes @ '' B''
      else if bytes < 1024 * 1024 then toFixed1 bytes 1024 @ '' KB''
      else toFixed1 bytes (1024 * 1024) @ '' MB'')"

section \<open>types\<close>

type_synonym byte = "8 word"

text \<open>A \<open>Blob\<close> and a \<open>Uint8Array\<close> are their bytes.\<close>

type_synonym blob = "byte list"

datatype FlashState =
    IDLE | BROWSER_UNSUPPORTED | WAITING_ADB_CONNECT | ADB_CONNECTING | ADB_CONNECTED
  | DETECTING_FIRMWARE | FIRMWARE_DETECTED | FETCHING_RELEASES | RELEASE_NOT_FOUND
  | RELEASE_MATCHED | DOWNLOADING_IMAGE | DOWNLOAD_COMPLETE | CONFIRMING_FLASH
  | REBOOTING_BOOTLOADER | WAITING_FASTBOOT | FASTBOOT_CONNECTING | FASTBOOT_CONNECTED
  | FLASHING | FLASH_COMPLETE | REBOOTING_SYSTEM | SUCCESS | ERROR

record DeviceInfo =
  model :: string
  firmwareVersion :: string
  serial :: "string option"

text \<open>
  Both \<open>GitHubRelease\<close> and \<open>GitHubAsset\<close> have a field \<open>name\<close>, and \<open>size\<close>, \<open>total\<close> and
  \<open>partition\<close> are constants of the library: these fields carry a prefix or a suffix.
\<close>

record GitHubAsset =
  asset_name :: string
  browser_download_url :: string
  asset_size :: nat

record GitHubRelease =
  tag_name :: string
  release_name :: string
  published_at :: string
  assets :: "GitHubAsset list"

record DownloadProgress =
  loaded :: nat
  total_bytes :: nat
  percentage :: real

record FlashProgress =
  action :: string
  partition_name :: string
  progress :: real

record AppState =
  state :: FlashState
  deviceInfo :: "DeviceInfo option"
  matchedRelease :: "GitHubRelease option"
  imageBlob :: "blob option"
  downloadProgress :: "DownloadProgress option"
  flashProgress :: "FlashProgress option"
  error :: "string option"
  logs :: "string list"

section \<open>The network\<close>

text \<open>
  What \<open>fetch\<close> resolves to. The body is absent (then \<open>blob()\<close> gives the bytes or rejects), or
  a reader that delivers chunks and then reports \<open>done\<close> or rejects. \<open>contentLength\<close> is the
  \<open>Content-Length\<close> header as the number \<open>parseInt\<close> reads from it, \<open>None\<close> when the header is
  absent. \<open>json\<close> is what \<open>json()\<close> resolves to.
\<close>

datatype body_source = NoBody "thrown + blob" | Stream "byte list list" "thrown option"

record Response =
  ok :: bool
  status :: nat
  statusText :: string
  contentLength :: "nat option"
  body :: body_source
  json :: "thrown + GitHubRelease list"

text \<open>One call of \<open>fetch\<close>: it rejects (\<open>Inl\<close>) or resolves to a response.\<close>

type_synonym fetch = "string \<Rightarrow> thrown + Response"

section \<open>services/github.ts\<close>

record GitHubService =
  releasesCache :: "GitHubRelease list option"

definition releases_url :: string where
  "releases_url = ''https://api.github.com/repos/CruelKernel/oneplus_kernel_patcher/releases''"

text \<open>
  \<open>fetchReleases\<close> returns its result, the service after the call, and the URLs it asked the
  network for. An array, also an empty one, is truthy: a cached list is returned as it is.
\<close>

definition fetchReleases ::
  "fetch \<Rightarrow> GitHubService \<Rightarrow> (thrown + GitHubRelease list) \<times> GitHubService \<times> string list" where
  "fetchReleases net svc =
     (case releasesCache svc of
        Some rs \<Rightarrow> (Inr rs, svc, [])
      | None \<Rightarrow>
          (case net releases_url of
             Inl e \<Rightarrow> (Inl e, svc, [releases_url])
           | Inr response \<Rightarrow>
               if \<not> ok response
               then (Inl (Error (''Failed to fetch releases: '' @ show_nat (status response) @
                                  '' '' @ statusText response)),
                     svc, [releases_url])
               else (case json response of
                       Inl e \<Rightarrow> (Inl e, svc, [releases_url])
                     | Inr rs \<Rightarrow> (Inr rs, svc\<lparr>releasesCache := Some rs\<rparr>, [releases_url]))))"

definition findMatchingRelease ::
  "fetch \<Rightarrow> GitHubService \<Rightarrow> string \<Rightarrow>
   (thrown + GitHubRelease option) \<times> GitHubService \<times> string list" where
  "findMatchingRelease net svc fwVersion =
     (case fetchReleases net svc of
        (Inl e, svc', rq) \<Rightarrow> (Inl e, svc', rq)
      | (Inr releases, svc', rq) \<Rightarrow>
          (Inr (find (\<lambda>r. tag_name r = fwVersion) releases), svc', rq))"

definition getPatchedImageAsset :: "GitHubRelease \<Rightarrow> GitHubAsset option" where
  "getPatchedImageAsset release =
     find (\<lambda>a. asset_name a = ''magisk_patched_init_boot.img'') (assets release)"

definition getStockImageAsset :: "GitHubRelease \<Rightarrow> GitHubAsset option" where
  "getStockImageAsset release = find (\<lambda>a. asset_name a = ''init_boot.img'') (assets release)"

definition clearCache :: "GitHubService \<Rightarrow> GitHubService" where
  "clearCache svc = svc\<lparr>releasesCache := None\<rparr>"

section \<open>services/download.ts\<close>

text \<open>
  The argument of \<open>onProgress\<close>. Byte counts are natural numbers: below \<open>2^53\<close> the numbers of
  the program count exactly. \<open>percentage\<close> is the exact quotient, which the program rounds to
  double precision.
\<close>

definition progress_event :: "nat \<Rightarrow> nat \<Rightarrow> DownloadProgress" where
  "progress_event ld tot =
     \<lparr>loaded = ld, total_bytes = tot,
      percentage = (if tot > 0 then (real ld / real tot) * 100 else 0)\<rparr>"

text \<open>
  The read loop of \<open>downloadWithProgress\<close>, with its variables \<open>chunks\<close> and \<open>loaded\<close>. The
  second component of the result lists the arguments of the calls of \<open>onProgress\<close>, in order.
\<close>

fun read_loop ::
  "nat \<Rightarrow> byte list list \<Rightarrow> thrown option \<Rightarrow> byte list list \<Rightarrow> nat \<Rightarrow>
   (thrown + blob) \<times> DownloadProgress list" where
  "read_loop tot [] fin chunks ld =
     (case fin of None \<Rightarrow> (Inr (concat chunks), []) | Some e \<Rightarrow> (Inl e, []))"
| "read_loop tot (v # rest) fin chunks ld =
     (let chunks' = chunks @ [v];
          ld' = ld + length v;
          (r, evs) = read_loop tot rest fin chunks' ld'
      in (r, progress_event ld' tot # evs))"

definition downloadWithProgress :: "Response \<Rightarrow> (thrown + blob) \<times> DownloadProgress list" where
  "downloadWithProgress response =
     (let tot = (case contentLength response of Some n \<Rightarrow> n | None \<Rightarrow> 0)
      in case body response of
           NoBody r \<Rightarrow> (r, [])
         | Stream cs fin \<Rightarrow> read_loop tot cs fin [] 0)"

text \<open>
  \<open>encodeURIComponent\<close> on the UTF-8 bytes: the unreserved characters stay, every other byte
  becomes \<open>%\<close> and two upper-case hexadecimal digits.
\<close>

definition uri_unreserved :: "char \<Rightarrow> bool" where
  "uri_unreserved c =
     (c \<in> set ''ABCDEFGHIJKLMNOPQRSTUVWXYZabcdefghijklmnopqrstuvwxyz0123456789-_.!~*()'' \<or>
      c = CHR 0x27)"

definition hex_digit :: "nat \<Rightarrow> char" where
  "hex_digit d = ''0123456789ABCDEF'' ! (d mod 16)"

definition encodeURIComponent :: "string \<Rightarrow> string" where
  "encodeURIComponent s =
     concat (map (\<lambda>c. if uri_unreserved c then [c]
                       else [CHR ''%'', hex_digit (of_char c div 16), hex_digit (of_char c)]) s)"

definition CORS_PROXIES :: "(string \<Rightarrow> string) list" where
  "CORS_PROXIES = [\<lambda>url. ''https://api.codetabs.com/v1/proxy?quest='' @ encodeURIComponent url]"

text \<open>\<open>lastError?.message || 'All proxies failed'\<close>: an absent or empty message is falsy.\<close>

fun failure_text :: "thrown option \<Rightarrow> string" where
  "failure_text (Some (Error m)) = (if m = [] then ''All proxies failed'' else m)"
| "failure_text _ = ''All proxies failed''"

text \<open>
  The body of the \<open>try\<close> block for one proxy: the call of \<open>fetch\<close>, the check of \<open>ok\<close> and the
  streaming download. \<open>Inl\<close> is what the \<open>catch\<close> receives; the list holds the arguments of the
  calls of \<open>onProgress\<close> made on the way.
\<close>

definition attempt :: "fetch \<Rightarrow> string \<Rightarrow> (thrown + blob) \<times> DownloadProgress list" where
  "attempt net proxiedUrl =
     (case net proxiedUrl of
        Inl e \<Rightarrow> (Inl e, [])
      | Inr response \<Rightarrow>
          if \<not> ok response then (Inl (Error (show_nat (status response))), [])
          else downloadWithProgress response)"

text \<open>
  The loop of \<open>downloadAsset\<close> over the proxies, with its variable \<open>lastError\<close>; \<open>i\<close> counts the
  calls of \<open>fetch\<close>, and \<open>net i\<close> is the \<open>i\<close>-th call. The result is the blob or the thrown
  error, the arguments of the calls of \<open>onProgress\<close>, and the URLs fetched, both in order.
\<close>

fun try_proxies ::
  "(string \<Rightarrow> string) list \<Rightarrow> (nat \<Rightarrow> fetch) \<Rightarrow> string \<Rightarrow> nat \<Rightarrow> thrown option \<Rightarrow>
   (thrown + blob) \<times> DownloadProgress list \<times> string list" where
  "try_proxies [] net url i lastError =
     (Inl (Error (''Download failed: '' @ failure_text lastError)), [], [])"
| "try_proxies (makeProxyUrl # rest) net url i lastError =
     (let proxiedUrl = makeProxyUrl url
      in case attempt (net i) proxiedUrl of
           (Inr b, evs0) \<Rightarrow> (Inr b, evs0, [proxiedUrl])
         | (Inl e, evs0) \<Rightarrow>
             (case try_proxies rest net url (Suc i) (Some e) of
                (r, evs, rq) \<Rightarrow> (r, evs0 @ evs, proxiedUrl # rq)))"

definition downloadAsset ::
  "(nat \<Rightarrow> fetch) \<Rightarrow> string \<Rightarrow> (thrown + blob) \<times> DownloadProgress list \<times> string list" where
  "downloadAsset net url = try_proxies CORS_PROXIES net url 0 None"

section \<open>services/adb.ts\<close>

text \<open>
  The \<open>Adb\<close> session of the library is opaque but for its \<open>serial\<close>. The service holds one
  or \<open>null\<close>. Each method takes what the library calls it awaits settle with.
\<close>

record Adb =
  adb_serial :: "string option"

record AdbService =
  adb :: "Adb option"

text \<open>
  \<open>connect\<close> awaits \<open>requestDevice\<close> (which rejects, or resolves to no device or to a device),
  then the device's \<open>connect\<close>, then \<open>authenticate\<close>.
\<close>

datatype adb_connect_env =
    RequestDeviceThrew thrown | NoDevice | DeviceConnectThrew thrown
  | AuthenticateThrew thrown | Authenticated Adb

definition adb_connect ::
  "bool \<Rightarrow> adb_connect_env \<Rightarrow> AdbService \<Rightarrow> (thrown + unit) \<times> AdbService" where
  "adb_connect manager env svc =
     (if \<not> manager then (Inl (Error ''WebUSB is not supported in this browser''), svc)
      else case env of
             RequestDeviceThrew e \<Rightarrow> (Inl e, svc)
           | NoDevice \<Rightarrow> (Inl (Error ''No device selected''), svc)
           | DeviceConnectThrew e \<Rightarrow> (Inl e, svc)
           | AuthenticateThrew e \<Rightarrow> (Inl e, svc)
           | Authenticated a \<Rightarrow> (Inr (), svc\<lparr>adb := Some a\<rparr>))"

text \<open>
  \<open>getDeviceInfo\<close>: \<open>props\<close> is what \<open>Promise.all\<close> of the reads of \<open>ro.product.model\<close> and
  \<open>ro.build.display.id\<close> settles with.
\<close>

definition getDeviceInfo :: "(thrown + string \<times> string) \<Rightarrow> AdbService \<Rightarrow> thrown + DeviceInfo" where
  "getDeviceInfo props svc =
     (case adb svc of
        None \<Rightarrow> Inl (Error ''Not connected to device'')
      | Some a \<Rightarrow>
          (case props of
             Inl e \<Rightarrow> Inl e
           | Inr (m, fw) \<Rightarrow> Inr \<lparr>model = m, firmwareVersion = fw, serial = adb_serial a\<rparr>))"

definition adb_rebootToBootloader :: "(thrown + unit) \<Rightarrow> AdbService \<Rightarrow> thrown + unit" where
  "adb_rebootToBootloader env svc =
     (case adb svc of None \<Rightarrow> Inl (Error ''Not connected to device'') | Some a \<Rightarrow> env)"

definition adb_disconnect :: "(thrown + unit) \<Rightarrow> AdbService \<Rightarrow> (thrown + unit) \<times> AdbService" where
  "adb_disconnect env svc =
     (case adb svc of
        None \<Rightarrow> (Inr (), svc)
      | Some a \<Rightarrow> (case env of Inl e \<Rightarrow> (Inl e, svc) | Inr u \<Rightarrow> (Inr (), svc\<lparr>adb := None\<rparr>)))"

section \<open>services/fastboot.ts\<close>

record FastbootDevice =
  isConnected :: bool

record FastbootService =
  device :: FastbootDevice

text \<open>\<open>connect\<close>: the library call rejects, or resolves and leaves the device connected or not.\<close>

definition fastboot_connect ::
  "(thrown + bool) \<Rightarrow> FastbootService \<Rightarrow> (thrown + unit) \<times> FastbootService" where
  "fastboot_connect env svc =
     (case env of
        Inl e \<Rightarrow> (Inl e, svc)
      | Inr c \<Rightarrow> (Inr (), svc\<lparr>device := (device svc)\<lparr>isConnected := c\<rparr>\<rparr>))"

text \<open>\<open>getVariable\<close>: \<open>dev\<close> is the library's \<open>getVariable\<close>; a rejection becomes \<open>null\<close>.\<close>

definition getVariable :: "(string \<Rightarrow> thrown + string option) \<Rightarrow> string \<Rightarrow> string option" where
  "getVariable dev name = (case dev name of Inl e \<Rightarrow> None | Inr v \<Rightarrow> v)"

definition isBootloaderUnlocked :: "(string \<Rightarrow> thrown + string option) \<Rightarrow> bool" where
  "isBootloaderUnlocked dev = (let unlocked = getVariable dev ''unlocked'' in unlocked = Some ''yes'')"

text \<open>
  \<open>flashInitBoot\<close>: \<open>flashBlob\<close> reports the fractions \<open>ps\<close> and settles with \<open>env\<close>; the
  callback passes each fraction on.
\<close>

definition flashInitBoot ::
  "real list \<Rightarrow> (thrown + unit) \<Rightarrow> blob \<Rightarrow> (thrown + unit) \<times> FlashProgress list" where
  "flashInitBoot ps env imageBlob' =
     (env, map (\<lambda>p. \<lparr>action = ''flashing'', partition_name = ''init_boot'', progress = p\<rparr>) ps)"

definition fastboot_reboot :: "(thrown + unit) \<Rightarrow> thrown + unit" where
  "fastboot_reboot env = env"

section \<open>App.tsx: the controller\<close>

definition initialState :: AppState where
  "initialState =
     \<lparr>state = IDLE, deviceInfo = None, matchedRelease = None, imageBlob = None,
      downloadProgress = None, flashProgress = None, error = None, logs = []\<rparr>"

text \<open>
  A service call the controller awaits, named after the call. An operation carries what the
  code after its \<open>await\<close> reads from the closure: the device information in \<open>findRelease\<close>, the
  asset in \<open>downloadImage\<close>, and the \<open>imageBlob\<close> that \<open>flashImage\<close> captured when the handler
  was made.
\<close>

datatype pending_op =
    AdbConnect
  | GetDeviceInfo
  | FindMatchingRelease DeviceInfo
  | DownloadAsset GitHubAsset
  | AdbRebootToBootloader
  | AdbDisconnect
  | FastbootConnect "blob option"
  | IsBootloaderUnlocked "blob option"
  | FlashInitBoot blob
  | FastbootReboot

text \<open>
  The component: its state, the three services it holds in refs, whether the browser has
  WebUSB, and the calls awaited and not yet settled. \<open>fetched\<close> records every URL passed to
  \<open>fetch\<close>. A log entry is the message; the clock reading in front of it is left out.
\<close>

record system =
  appState :: AppState
  adbService :: AdbService
  fastbootService :: FastbootService
  githubService :: GitHubService
  webusb :: bool
  pending :: "pending_op list"
  fetched :: "string list"

definition initial_system :: "bool \<Rightarrow> system" where
  "initial_system w =
     \<lparr>appState = initialState, adbService = \<lparr>adb = None\<rparr>,
      fastbootService = \<lparr>device = \<lparr>isConnected = False\<rparr>\<rparr>,
      githubService = \<lparr>releasesCache = None\<rparr>, webusb = w, pending = [], fetched = []\<rparr>"

definition addLog :: "string \<Rightarrow> system \<Rightarrow> system" where
  "addLog message s = s\<lparr>appState := (appState s)\<lparr>logs := logs (appState s) @ [message]\<rparr>\<rparr>"

text \<open>\<open>setState(state, extra)\<close>: \<open>extra\<close> is the update of the extra fields.\<close>

definition setState :: "FlashState \<Rightarrow> (AppState \<Rightarrow> AppState) \<Rightarrow> system \<Rightarrow> system" where
  "setState st extra s = s\<lparr>appState := extra ((appState s)\<lparr>state := st\<rparr>)\<rparr>"

definition setError :: "string \<Rightarrow> system \<Rightarrow> system" where
  "setError err s =
     (let s = addLog (''Error: '' @ err) s
      in setState ERROR (\<lambda>a. a\<lparr>error := Some err\<rparr>) s)"

definition await :: "pending_op \<Rightarrow> system \<Rightarrow> system" where
  "await op s = s\<lparr>pending := pending s @ [op]\<rparr>"

definition checkBrowser :: "system \<Rightarrow> bool \<times> system" where
  "checkBrowser s =
     (if \<not> webusb s
      then (let s = addLog ''WebUSB is not supported in this browser'' s;
                s = setState BROWSER_UNSUPPORTED id s
            in (False, s))
      else (True, addLog ''WebUSB is supported'' s))"

subsection \<open>detectFirmware and findRelease\<close>

definition detectFirmware_begin :: "system \<Rightarrow> system" where
  "detectFirmware_begin s =
     (let s = setState DETECTING_FIRMWARE id s;
          s = addLog ''Reading device information...'' s
      in await GetDeviceInfo s)"

definition detectFirmware_end :: "(thrown + DeviceInfo) \<Rightarrow> system \<Rightarrow> DeviceInfo option \<times> system" where
  "detectFirmware_end r s =
     (case r of
        Inr di \<Rightarrow>
          (let s = addLog (''Device: '' @ model di) s;
               s = addLog (''Firmware: '' @ firmwareVersion di) s;
               parsed = parseVersion (firmwareVersion di)
           in if (case parsed of None \<Rightarrow> True | Some pv \<Rightarrow> \<not> isOnePlusOpen (modelCode pv))
              then (None, setError ''This tool only supports OnePlus Open (CPH2551)'' s)
              else (Some di, setState FIRMWARE_DETECTED (\<lambda>a. a\<lparr>deviceInfo := Some di\<rparr>) s))
      | Inl err \<Rightarrow> (None, setError (''Failed to read device info: '' @ messageOf err) s))"

definition findRelease_begin :: "DeviceInfo \<Rightarrow> system \<Rightarrow> system" where
  "findRelease_begin di s =
     (let s = setState FETCHING_RELEASES id s;
          s = addLog ''Fetching available releases...'' s
      in await (FindMatchingRelease di) s)"

definition findRelease_end :: "DeviceInfo \<Rightarrow> (thrown + GitHubRelease option) \<Rightarrow> system \<Rightarrow> system" where
  "findRelease_end di r s =
     (case r of
        Inr None \<Rightarrow>
          (let s = addLog (''No release found for firmware '' @ firmwareVersion di) s
           in setState RELEASE_NOT_FOUND id s)
      | Inr (Some release) \<Rightarrow>
          (case getPatchedImageAsset release of
             None \<Rightarrow> setError ''Release found but no patched image available'' s
           | Some asset \<Rightarrow>
               (let s = addLog (''Found matching release: '' @ tag_name release) s;
                    s = addLog (''Patched image: '' @ asset_name asset @ '' ('' @
                                formatFileSize (asset_size asset) @ '')'') s
                in setState RELEASE_MATCHED (\<lambda>a. a\<lparr>matchedRelease := Some release\<rparr>) s))
      | Inl err \<Rightarrow> setError (''Failed to fetch releases: '' @ messageOf err) s)"

subsection \<open>connectAdb\<close>

definition connectAdb :: "system \<Rightarrow> system" where
  "connectAdb s =
     (case checkBrowser s of
        (False, s) \<Rightarrow> s
      | (True, s) \<Rightarrow>
          (let s = setState ADB_CONNECTING id s;
               s = addLog ''Connecting to device via ADB...'' s
           in await AdbConnect s))"

definition connectAdb_connected :: "(thrown + unit) \<Rightarrow> system \<Rightarrow> system" where
  "connectAdb_connected r s =
     (case r of
        Inr u \<Rightarrow>
          (let s = addLog ''ADB connection established'' s;
               s = setState ADB_CONNECTED id s
           in detectFirmware_begin s)
      | Inl err \<Rightarrow>
          (let message = messageOf err
           in if str_includes message ''No device selected''
              then (let s = setState WAITING_ADB_CONNECT id s
                    in addLog ''Device selection cancelled'' s)
              else setError (''ADB connection failed: '' @ message) s))"

definition connectAdb_detected :: "(thrown + DeviceInfo) \<Rightarrow> system \<Rightarrow> system" where
  "connectAdb_detected r s =
     (case detectFirmware_end r s of
        (None, s) \<Rightarrow> s
      | (Some di, s) \<Rightarrow> findRelease_begin di s)"

subsection \<open>downloadImage, confirmFlash, rebootToBootloader\<close>

definition downloadImage :: "system \<Rightarrow> system" where
  "downloadImage s =
     (case matchedRelease (appState s) of
        None \<Rightarrow> s
      | Some release \<Rightarrow>
          (case getPatchedImageAsset release of
             None \<Rightarrow> s
           | Some asset \<Rightarrow>
               (let s = setState DOWNLOADING_IMAGE
                          (\<lambda>a. a\<lparr>downloadProgress :=
                                   Some \<lparr>loaded = 0, total_bytes = asset_size asset, percentage = 0\<rparr>\<rparr>) s;
                    s = addLog ''Downloading patched image...'' s
                in await (DownloadAsset asset) s)))"

text \<open>The callback handed to \<open>downloadAsset\<close>.\<close>

definition onDownloadProgress :: "DownloadProgress \<Rightarrow> system \<Rightarrow> system" where
  "onDownloadProgress p s = s\<lparr>appState := (appState s)\<lparr>downloadProgress := Some p\<rparr>\<rparr>"

definition downloadImage_end :: "(thrown + blob) \<Rightarrow> DownloadProgress list \<Rightarrow> system \<Rightarrow> system" where
  "downloadImage_end r evs s =
     (let s = fold onDownloadProgress evs s
      in case r of
           Inr b \<Rightarrow>
             (let s = addLog (''Download complete: '' @ formatFileSize (length b)) s
              in setState DOWNLOAD_COMPLETE (\<lambda>a. a\<lparr>imageBlob := Some b, downloadProgress := None\<rparr>) s)
         | Inl err \<Rightarrow> setError (''Download failed: '' @ messageOf err) s)"

definition confirmFlash :: "system \<Rightarrow> system" where
  "confirmFlash s = setState CONFIRMING_FLASH id s"

definition rebootToBootloader :: "system \<Rightarrow> system" where
  "rebootToBootloader s =
     (let s = setState REBOOTING_BOOTLOADER id s;
          s = addLog ''Rebooting to bootloader...'' s
      in await AdbRebootToBootloader s)"

definition rebootToBootloader_rebooted :: "(thrown + unit) \<Rightarrow> system \<Rightarrow> system" where
  "rebootToBootloader_rebooted r s =
     (case r of
        Inr u \<Rightarrow> await AdbDisconnect s
      | Inl err \<Rightarrow> setError (''Failed to reboot: '' @ messageOf err) s)"

definition rebootToBootloader_disconnected :: "(thrown + unit) \<Rightarrow> system \<Rightarrow> system" where
  "rebootToBootloader_disconnected r s =
     (case r of
        Inr u \<Rightarrow>
          (let s = addLog ''Device is rebooting to bootloader'' s;
               s = addLog ''Please wait for the device to enter fastboot mode...'' s
           in setState WAITING_FASTBOOT id s)
      | Inl err \<Rightarrow> setError (''Failed to reboot: '' @ messageOf err) s)"

subsection \<open>rebootSystem, flashImage, connectFastboot\<close>

definition rebootSystem_begin :: "system \<Rightarrow> system" where
  "rebootSystem_begin s =
     (let s = setState REBOOTING_SYSTEM id s;
          s = addLog ''Rebooting to system...'' s
      in await FastbootReboot s)"

definition rebootSystem_end :: "(thrown + unit) \<Rightarrow> system \<Rightarrow> system" where
  "rebootSystem_end r s =
     (case r of
        Inr u \<Rightarrow>
          (let s = addLog ''Device is rebooting'' s
           in setState SUCCESS id s)
      | Inl err \<Rightarrow>
          (let s = addLog ''Reboot command sent'' s
           in setState SUCCESS id s))"

definition flashImage_begin :: "blob option \<Rightarrow> system \<Rightarrow> system" where
  "flashImage_begin captured s =
     (case captured of
        None \<Rightarrow> s
      | Some b \<Rightarrow>
          (let s = setState FLASHING
                     (\<lambda>a. a\<lparr>flashProgress :=
                              Some \<lparr>action = ''preparing'', partition_name = ''init_boot'',
                                    progress = 0\<rparr>\<rparr>) s;
               s = addLog ''Flashing init_boot partition...'' s
           in await (FlashInitBoot b) s))"

text \<open>The callback handed to \<open>flashInitBoot\<close>.\<close>

definition onFlashProgress :: "FlashProgress \<Rightarrow> system \<Rightarrow> system" where
  "onFlashProgress p s = s\<lparr>appState := (appState s)\<lparr>flashProgress := Some p\<rparr>\<rparr>"

definition flashImage_end :: "(thrown + unit) \<Rightarrow> FlashProgress list \<Rightarrow> system \<Rightarrow> system" where
  "flashImage_end r evs s =
     (let s = fold onFlashProgress evs s
      in case r of
           Inr u \<Rightarrow>
             (let s = addLog ''Flash complete!'' s;
                  s = setState FLASH_COMPLETE (\<lambda>a. a\<lparr>flashProgress := None\<rparr>) s
              in rebootSystem_begin s)
         | Inl err \<Rightarrow> setError (''Flash failed: '' @ messageOf err) s)"

definition connectFastboot :: "system \<Rightarrow> system" where
  "connectFastboot s =
     (let captured = imageBlob (appState s);
          s = setState FASTBOOT_CONNECTING id s;
          s = addLog ''Connecting to device in fastboot mode...'' s
      in await (FastbootConnect captured) s)"

definition connectFastboot_catch :: "thrown \<Rightarrow> system \<Rightarrow> system" where
  "connectFastboot_catch err s =
     (let message = messageOf err
      in if str_includes message ''No device selected'' \<or> str_includes message ''cancelled''
         then (let s = setState WAITING_FASTBOOT id s
               in addLog ''Device selection cancelled'' s)
         else setError (''Fastboot connection failed: '' @ message) s)"

definition connectFastboot_connected :: "blob option \<Rightarrow> (thrown + unit) \<Rightarrow> system \<Rightarrow> system" where
  "connectFastboot_connected captured r s =
     (case r of
        Inl err \<Rightarrow> connectFastboot_catch err s
      | Inr u \<Rightarrow>
          if \<not> isConnected (device (fastbootService s))
          then connectFastboot_catch (Error ''Failed to establish fastboot connection'') s
          else await (IsBootloaderUnlocked captured) s)"

definition connectFastboot_checked :: "blob option \<Rightarrow> bool \<Rightarrow> system \<Rightarrow> system" where
  "connectFastboot_checked captured unlocked s =
     (if \<not> unlocked
      then setError ''Bootloader is locked. Please unlock it first before flashing.'' s
      else (let s = addLog ''Fastboot connection established'' s;
                s = addLog ''Bootloader is unlocked'' s;
                s = setState FASTBOOT_CONNECTED id s
            in flashImage_begin captured s))"

definition reset :: "system \<Rightarrow> system" where
  "reset s =
     s\<lparr>adbService := \<lparr>adb = None\<rparr>,
       fastbootService := \<lparr>device = \<lparr>isConnected = False\<rparr>\<rparr>,
       appState := initialState\<rparr>"

subsection \<open>Events\<close>

text \<open>The handlers bound to buttons, and the buttons \<open>renderContent\<close> shows in each state.\<close>

datatype handler = ConnectAdb | Reset | DownloadImage | ConfirmFlash | RebootToBootloader | ConnectFastboot

fun onClick :: "FlashState \<Rightarrow> handler list" where
  "onClick IDLE = [ConnectAdb]"
| "onClick WAITING_ADB_CONNECT = [ConnectAdb]"
| "onClick RELEASE_NOT_FOUND = [Reset]"
| "onClick RELEASE_MATCHED = [DownloadImage]"
| "onClick DOWNLOAD_COMPLETE = [ConfirmFlash]"
| "onClick CONFIRMING_FLASH = [Reset, RebootToBootloader]"
| "onClick WAITING_FASTBOOT = [ConnectFastboot]"
| "onClick SUCCESS = [Reset]"
| "onClick ERROR = [Reset]"
| "onClick st = []"

fun run_handler :: "handler \<Rightarrow> system \<Rightarrow> system" where
  "run_handler ConnectAdb s = connectAdb s"
| "run_handler Reset s = reset s"
| "run_handler DownloadImage s = downloadImage s"
| "run_handler ConfirmFlash s = confirmFlash s"
| "run_handler RebootToBootloader s = rebootToBootloader s"
| "run_handler ConnectFastboot s = connectFastboot s"

text \<open>
  What the world answers when an awaited call settles: for each call, the outcomes of the
  library calls inside it.
\<close>

datatype settled =
    AdbConnectDone adb_connect_env
  | GetDeviceInfoDone "thrown + string \<times> string"
  | FindMatchingReleaseDone fetch
  | DownloadAssetDone "nat \<Rightarrow> fetch"
  | AdbRebootToBootloaderDone "thrown + unit"
  | AdbDisconnectDone "thrown + unit"
  | FastbootConnectDone "thrown + bool"
  | IsBootloaderUnlockedDone "string \<Rightarrow> thrown + string option"
  | FlashInitBootDone "real list" "thrown + unit"
  | FastbootRebootDone "thrown + unit"

text \<open>
  The code after each \<open>await\<close>: the service method computes its result from the answer, and
  the handler goes on with it. An answer that is not of the kind of the call is no event.
\<close>

definition resume :: "pending_op \<Rightarrow> settled \<Rightarrow> system \<Rightarrow> system option" where
  "resume op x s =
     (case (op, x) of
        (AdbConnect, AdbConnectDone env) \<Rightarrow>
          (case adb_connect (webusb s) env (adbService s) of
             (r, svc) \<Rightarrow> Some (connectAdb_connected r (s\<lparr>adbService := svc\<rparr>)))
      | (GetDeviceInfo, GetDeviceInfoDone props) \<Rightarrow>
          Some (connectAdb_detected (getDeviceInfo props (adbService s)) s)
      | (FindMatchingRelease di, FindMatchingReleaseDone net) \<Rightarrow>
          (case findMatchingRelease net (githubService s) (firmwareVersion di) of
             (r, svc, rq) \<Rightarrow>
               Some (findRelease_end di r (s\<lparr>githubService := svc, fetched := fetched s @ rq\<rparr>)))
      | (DownloadAsset asset, DownloadAssetDone net) \<Rightarrow>
          (case downloadAsset net (browser_download_url asset) of
             (r, evs, rq) \<Rightarrow> Some (downloadImage_end r evs (s\<lparr>fetched := fetched s @ rq\<rparr>)))
      | (AdbRebootToBootloader, AdbRebootToBootloaderDone env) \<Rightarrow>
          Some (rebootToBootloader_rebooted (adb_rebootToBootloader env (adbService s)) s)
      | (AdbDisconnect, AdbDisconnectDone env) \<Rightarrow>
          (case adb_disconnect env (adbService s) of
             (r, svc) \<Rightarrow> Some (rebootToBootloader_disconnected r (s\<lparr>adbService := svc\<rparr>)))
      | (FastbootConnect captured, FastbootConnectDone env) \<Rightarrow>
          (case fastboot_connect env (fastbootService s) of
             (r, svc) \<Rightarrow>
               Some (connectFastboot_connected captured r (s\<lparr>fastbootService := svc\<rparr>)))
      | (IsBootloaderUnlocked captured, IsBootloaderUnlockedDone dev) \<Rightarrow>
          Some (connectFastboot_checked captured (isBootloaderUnlocked dev) s)
      | (FlashInitBoot b, FlashInitBootDone ps env) \<Rightarrow>
          (case flashInitBoot ps env b of (r, evs) \<Rightarrow> Some (flashImage_end r evs s))
      | (FastbootReboot, FastbootRebootDone env) \<Rightarrow>
          Some (rebootSystem_end (fastboot_reboot env) s)
      | _ \<Rightarrow> None)"

datatype event = Click handler | Settle nat settled

text \<open>
  One event. A click runs the handler of a button that the current state shows, up to its
  first \<open>await\<close>. \<open>Settle n x\<close> settles the \<open>n\<close>-th outstanding call with the answer \<open>x\<close> and runs
  the code after its \<open>await\<close>, up to the next one.
\<close>

definition step :: "system \<Rightarrow> event \<Rightarrow> system option" where
  "step s e =
     (case e of
        Click h \<Rightarrow> if h \<in> set (onClick (state (appState s))) then Some (run_handler h s) else None
      | Settle n x \<Rightarrow>
          if n < length (pending s)
          then resume (pending s ! n) x (s\<lparr>pending := take n (pending s) @ drop (Suc n) (pending s)\<rparr>)
          else None)"

fun run :: "system \<Rightarrow> event list \<Rightarrow> system option" where
  "run s [] = Some s"
| "run s (e # es) = (case step s e of None \<Rightarrow> None | Some s' \<Rightarrow> run s' es)"

inductive reachable :: "system \<Rightarrow> bool" where
  reach_init: "reachable (initial_system w)"
| reach_step: "reachable s \<Longrightarrow> step s e = Some s' \<Longrightarrow> reachable s'"

text \<open>
  The state that stands for a call in progress: the state its handler sets before the call.
  Rebooting to the bootloader covers the reboot command and the disconnect after it;
  connecting in fastboot mode covers the connection and the check of the bootloader.
\<close>

fun in_progress :: "pending_op \<Rightarrow> FlashState" where
  "in_progress AdbConnect = ADB_CONNECTING"
| "in_progress GetDeviceInfo = DETECTING_FIRMWARE"
| "in_progress (FindMatchingRelease di) = FETCHING_RELEASES"
| "in_progress (DownloadAsset asset) = DOWNLOADING_IMAGE"
| "in_progress AdbRebootToBootloader = REBOOTING_BOOTLOADER"
| "in_progress AdbDisconnect = REBOOTING_BOOTLOADER"
| "in_progress (FastbootConnect captured) = FASTBOOT_CONNECTING"
| "in_progress (IsBootloaderUnlocked captured) = FASTBOOT_CONNECTING"
| "in_progress (FlashInitBoot b) = FLASHING"
| "in_progress FastbootReboot = REBOOTING_SYSTEM"

text \<open>
  The invariant of the controller. At most one call is outstanding, and then the state is
  the one that stands for it; up to the end of the download no image is held; and while the
  download runs a progress record is set.
\<close>

fun early :: "FlashState \<Rightarrow> bool" where
  "early DOWNLOAD_COMPLETE = False"
| "early CONFIRMING_FLASH = False"
| "early REBOOTING_BOOTLOADER = False"
| "early WAITING_FASTBOOT = False"
| "early FASTBOOT_CONNECTING = False"
| "early FASTBOOT_CONNECTED = False"
| "early FLASHING = False"
| "early FLASH_COMPLETE = False"
| "early REBOOTING_SYSTEM = False"
| "early SUCCESS = False"
| "early ERROR = False"
| "early st = True"

definition single_flight :: "system \<Rightarrow> bool" where
  "single_flight s =
     (length (pending s) \<le> 1 \<and> (\<forall>op\<in>set (pending s). state (appState s) = in_progress op))"

definition controller_inv :: "system \<Rightarrow> bool" where
  "controller_inv s =
     (single_flight s \<and>
      (early (state (appState s)) \<longrightarrow> imageBlob (appState s) = None) \<and>
      (state (appState s) = DOWNLOADING_IMAGE \<longrightarrow> downloadProgress (appState s) \<noteq> None))"

text \<open>What the awaited call rejects with, given what the world answers; \<open>None\<close> when it resolves.\<close>

definition thrown_of :: "thrown + 'a \<Rightarrow> thrown option" where
  "thrown_of r = (case r of Inl e \<Rightarrow> Some e | Inr v \<Rightarrow> None)"

definition rejection :: "system \<Rightarrow> pending_op \<Rightarrow> settled \<Rightarrow> thrown option" where
  "rejection s op x =
     (case (op, x) of
        (AdbConnect, AdbConnectDone env) \<Rightarrow>
          thrown_of (fst (adb_connect (webusb s) env (adbService s)))
      | (GetDeviceInfo, GetDeviceInfoDone props) \<Rightarrow> thrown_of (getDeviceInfo props (adbService s))
      | (FindMatchingRelease di, FindMatchingReleaseDone net) \<Rightarrow>
          thrown_of (fst (findMatchingRelease net (githubService s) (firmwareVersion di)))
      | (DownloadAsset asset, DownloadAssetDone net) \<Rightarrow>
          thrown_of (fst (downloadAsset net (browser_download_url asset)))
      | (AdbRebootToBootloader, AdbRebootToBootloaderDone env) \<Rightarrow>
          thrown_of (adb_rebootToBootloader env (adbService s))
      | (AdbDisconnect, AdbDisconnectDone env) \<Rightarrow>
          thrown_of (fst (adb_disconnect env (adbService s)))
      | (FastbootConnect captured, FastbootConnectDone env) \<Rightarrow>
          thrown_of (fst (fastboot_connect env (fastbootService s)))
      | (FlashInitBoot b, FlashInitBootDone ps env) \<Rightarrow> thrown_of (fst (flashInitBoot ps env b))
      | (FastbootReboot, FastbootRebootDone env) \<Rightarrow> thrown_of (fastboot_reboot env)
      | _ \<Rightarrow> None)"

text \<open>
  The rejections that are kept out of \<open>ERROR\<close> as a dismissed device prompt, read from the
  message alone: of the ADB connection when the message contains \<open>No device selected\<close>, of
  the fastboot connection when it contains \<open>No device selected\<close> or \<open>cancelled\<close>. The state
  the controller then returns to, and the text each step puts before the message of a
  rejection it reports.
\<close>

fun dismissed :: "pending_op \<Rightarrow> string \<Rightarrow> bool" where
  "dismissed AdbConnect m = str_includes m ''No device selected''"
| "dismissed (FastbootConnect captured) m =
     (str_includes m ''No device selected'' \<or> str_includes m ''cancelled'')"
| "dismissed op m = False"

fun waiting_state :: "pending_op \<Rightarrow> FlashState" where
  "waiting_state AdbConnect = WAITING_ADB_CONNECT"
| "waiting_state op = WAITING_FASTBOOT"

fun error_prefix :: "pending_op \<Rightarrow> string" where
  "error_prefix AdbConnect = ''ADB connection failed: ''"
| "error_prefix GetDeviceInfo = ''Failed to read device info: ''"
| "error_prefix (FindMatchingRelease di) = ''Failed to fetch releases: ''"
| "error_prefix (DownloadAsset asset) = ''Download failed: ''"
| "error_prefix AdbRebootToBootloader = ''Failed to reboot: ''"
| "error_prefix AdbDisconnect = ''Failed to reboot: ''"
| "error_prefix (FastbootConnect captured) = ''Fastboot connection failed: ''"
| "error_prefix (FlashInitBoot b) = ''Flash failed: ''"
| "error_prefix op = []"

text \<open>The result of the \<open>k\<close>-th pass of the loop of \<open>downloadAsset\<close> over a list of proxies.\<close>

definition outcome :: "(nat \<Rightarrow> fetch) \<Rightarrow> string \<Rightarrow> (string \<Rightarrow> string) list \<Rightarrow> nat \<Rightarrow> thrown + blob" where
  "outcome net url proxies k = fst (attempt (net k) ((proxies ! k) url))"

section \<open>Example values\<close>

definition release_A :: GitHubRelease where
  "release_A = \<lparr>tag_name = ''CPH2551_15.0.0.822(EX01)'', release_name = ''first'',
                 published_at = ''2025-01-01'', assets = []\<rparr>"

definition release_B :: GitHubRelease where
  "release_B = \<lparr>tag_name = ''CPH2551_15.0.0.840(EX01)'', release_name = ''second'',
                 published_at = ''2025-02-01'', assets = []\<rparr>"

definition release_B' :: GitHubRelease where
  "release_B' = \<lparr>tag_name = ''CPH2551_15.0.0.840(EX01)'', release_name = ''third'',
                  published_at = ''2025-03-01'', assets = []\<rparr>"

definition offline :: fetch where
  "offline url = Inl (Error ''Failed to fetch'')"

definition not_found_response :: Response where
  "not_found_response =
     \<lparr>ok = False, status = 404, statusText = ''Not Found'', contentLength = None,
      body = NoBody (Inr []), json = Inr []\<rparr>"

definition three_chunks :: Response where
  "three_chunks =
     \<lparr>ok = True, status = 200, statusText = ''OK'', contentLength = Some 5,
      body = Stream [[1, 2], [], [3, 4, 5]] None, json = Inl NonError\<rparr>"

definition two_proxies :: "(string \<Rightarrow> string) list" where
  "two_proxies = [\<lambda>url. ''https://one.example/?'' @ url, \<lambda>url. ''https://two.example/?'' @ url]"

definition small_image :: Response where
  "small_image =
     \<lparr>ok = True, status = 200, statusText = ''OK'', contentLength = Some 3,
      body = Stream [[7, 8], [9]] None, json = Inl NonError\<rparr>"

definition bad_gateway :: Response where
  "bad_gateway =
     \<lparr>ok = False, status = 502, statusText = ''Bad Gateway'', contentLength = None,
      body = NoBody (Inr []), json = Inl NonError\<rparr>"

definition second_answers :: "nat \<Rightarrow> fetch" where
  "second_answers i url = (if i = 0 then Inl (Error ''Failed to fetch'') else Inr small_image)"

definition none_answers :: "nat \<Rightarrow> fetch" where
  "none_answers i url = (if i = 0 then Inl (Error ''Failed to fetch'') else Inr bad_gateway)"

text \<open>
  A run from the start: the device is connected and identified, its release is found with a
  patched image of 50000000 bytes, and the download fails at the only proxy.
\<close>

definition demo_asset :: GitHubAsset where
  "demo_asset =
     \<lparr>asset_name = ''magisk_patched_init_boot.img'',
      browser_download_url = ''https://github.com/CruelKernel/oneplus_kernel_patcher/releases/download/CPH2551_15.0.0.822(EX01)/magisk_patched_init_boot.img'',
      asset_size = 50000000\<rparr>"

definition demo_release :: GitHubRelease where
  "demo_release =
     \<lparr>tag_name = ''CPH2551_15.0.0.822(EX01)'', release_name = ''CPH2551_15.0.0.822(EX01)'',
      published_at = ''2025-01-01T00:00:00Z'', assets = [demo_asset]\<rparr>"

definition demo_catalogue :: Response where
  "demo_catalogue =
     \<lparr>ok = True, status = 200, statusText = ''OK'', contentLength = None,
      body = NoBody (Inr []), json = Inr [demo_release]\<rparr>"

definition to_release_matched :: "event list" where
  "to_release_matched =
     [Click ConnectAdb,
      Settle 0 (AdbConnectDone (Authenticated \<lparr>adb_serial = Some ''a1b2c3''\<rparr>)),
      Settle 0 (GetDeviceInfoDone (Inr (''CPH2551'', ''CPH2551_15.0.0.822(EX01)''))),
      Settle 0 (FindMatchingReleaseDone (\<lambda>url. Inr demo_catalogue))]"

definition failed_download :: "event list" where
  "failed_download =
     to_release_matched @
     [Click DownloadImage,
      Settle 0 (DownloadAssetDone (\<lambda>i url. Inl (Error ''Failed to fetch'')))]"

text \<open>
  A run that goes on to the check of the bootloader: the image of three bytes is
  downloaded, the device is rebooted to the bootloader and connected in fastboot mode.
\<close>

definition image_response :: Response where
  "image_response =
     \<lparr>ok = True, status = 200, statusText = ''OK'', contentLength = Some 3,
      body = Stream [[1, 2], [3]] None, json = Inl NonError\<rparr>"

definition to_unlock_check :: "event list" where
  "to_unlock_check =
     to_release_matched @
     [Click DownloadImage,
      Settle 0 (DownloadAssetDone (\<lambda>i url. Inr image_response)),
      Click ConfirmFlash,
      Click RebootToBootloader,
      Settle 0 (AdbRebootToBootloaderDone (Inr ())),
      Settle 0 (AdbDisconnectDone (Inr ())),
      Click ConnectFastboot,
      Settle 0 (FastbootConnectDone (Inr True))]"

text \<open>The same run up to the reboot to the system: the bootloader is unlocked and the flash succeeds.\<close>

definition to_reboot :: "event list" where
  "to_reboot =
     to_unlock_check @
     [Settle 0 (IsBootloaderUnlockedDone (\<lambda>name. Inr (Some ''yes''))),
      Settle 0 (FlashInitBootDone [1 / 2, 1] (Inr ()))]"

text \<open>
  A run in which the connection in fastboot mode rejects with a transfer error of the
  browser, after the image of three bytes was downloaded and the device rebooted.
\<close>

definition to_fastboot_connecting :: "event list" where
  "to_fastboot_connecting =
     to_release_matched @
     [Click DownloadImage,
      Settle 0 (DownloadAssetDone (\<lambda>i url. Inr image_response)),
      Click ConfirmFlash,
      Click RebootToBootloader,
      Settle 0 (AdbRebootToBootloaderDone (Inr ())),
      Settle 0 (AdbDisconnectDone (Inr ())),
      Click ConnectFastboot]"

definition cancelled_transfer :: "event list" where
  "cancelled_transfer =
     to_fastboot_connecting @
     [Settle 0 (FastbootConnectDone (Inl (Error ''The transfer was cancelled.'')))]"

text \<open>What a step that enters \<open>ERROR\<close> keeps of the state before it.\<close>

definition nothing_cleared :: "AppState \<Rightarrow> AppState \<Rightarrow> bool" where
  "nothing_cleared a a' =
     (deviceInfo a' = deviceInfo a \<and> matchedRelease a' = matchedRelease a \<and>
      imageBlob a' = imageBlob a \<and>
      (downloadProgress a \<noteq> None \<longrightarrow> downloadProgress a' \<noteq> None) \<and>
      (flashProgress a \<noteq> None \<longrightarrow> flashProgress a' \<noteq> None))"

section \<open>Properties of parseVersion\<close>

lemma ext_ext [simp]: "ext ys (ext xs cur) = ext (xs @ ys) cur"
  by (cases cur) (simp_all add: ext_def)

lemma ext_Nil [simp]: "ext [] cur = cur"
  by (cases cur) (simp_all add: ext_def)

lemma ext_Some [simp]: "ext xs (Some g) = Some (g @ xs)"
  by (simp add: ext_def)

lemma ext_None [simp]: "ext xs None = None"
  by (simp add: ext_def)

lemma star_greedy:
  "\<forall>x\<in>set xs. in_cls k x \<Longrightarrow> rx_match r rest (pos + length xs) dn (ext xs cur) = Some m \<Longrightarrow>
   (rest = [] \<or> \<not> in_cls k (hd rest)) \<Longrightarrow>
   rx_match (Star k # r) (xs @ rest) pos dn cur = Some m"
proof (induction xs arbitrary: pos cur)
  case Nil
  then show ?case by (cases rest) auto
next
  case (Cons x xs)
  from Cons.prems have "rx_match (Star k # r) (xs @ rest) (Suc pos) dn (ext [x] cur) = Some m"
    by (intro Cons.IH) auto
  with Cons.prems show ?case by simp
qed

lemma plus_greedy:
  "xs \<noteq> [] \<Longrightarrow> \<forall>x\<in>set xs. in_cls k x \<Longrightarrow> (rest = [] \<or> \<not> in_cls k (hd rest)) \<Longrightarrow>
   rx_match r rest (pos + length xs) dn (ext xs cur) = Some m \<Longrightarrow>
   rx_match (Plus k # r) (xs @ rest) pos dn cur = Some m"
proof (cases xs)
  case Nil
  assume "xs \<noteq> []" with Nil show ?thesis by simp
next
  case (Cons x ys)
  assume a: "\<forall>x\<in>set xs. in_cls k x" "rest = [] \<or> \<not> in_cls k (hd rest)"
    "rx_match r rest (pos + length xs) dn (ext xs cur) = Some m"
  have "rx_match (Star k # r) (ys @ rest) (Suc pos) dn (ext [x] cur) = Some m"
    using a Cons by (intro star_greedy) auto
  with a Cons show ?thesis by simp
qed

lemma star_elim:
  "rx_match (Star k # r) s pos dn cur = Some m \<Longrightarrow>
   \<exists>xs rest. s = xs @ rest \<and> (\<forall>x\<in>set xs. in_cls k x) \<and>
     rx_match r rest (pos + length xs) dn (ext xs cur) = Some m"
proof (induction s arbitrary: pos cur)
  case Nil
  then show ?case by (intro exI[of _ "[]"]) simp
next
  case (Cons x s)
  show ?case
  proof (cases "in_cls k x \<and> rx_match (Star k # r) s (Suc pos) dn (ext [x] cur) = Some m")
    case True
    from Cons.IH[OF conjunct2[OF True]] obtain xs rest where
      "s = xs @ rest" "\<forall>x\<in>set xs. in_cls k x"
      "rx_match r rest (Suc pos + length xs) dn (ext xs (ext [x] cur)) = Some m" by blast
    with True show ?thesis
      by (intro exI[of _ "x # xs"] exI[of _ rest]) simp
  next
    case False
    with Cons.prems have "rx_match r (x # s) pos dn cur = Some m"
      by (auto split: if_splits option.splits)
    then show ?thesis by (intro exI[of _ "[]"] exI[of _ "x # s"]) simp
  qed
qed

lemma plus_elim:
  "rx_match (Plus k # r) s pos dn cur = Some m \<Longrightarrow>
   \<exists>xs rest. xs \<noteq> [] \<and> s = xs @ rest \<and> (\<forall>x\<in>set xs. in_cls k x) \<and>
     rx_match r rest (pos + length xs) dn (ext xs cur) = Some m"
proof (cases s)
  case Nil
  assume "rx_match (Plus k # r) s pos dn cur = Some m"
  with Nil show ?thesis by simp
next
  case (Cons x t)
  assume a: "rx_match (Plus k # r) s pos dn cur = Some m"
  with Cons have x: "in_cls k x" and "rx_match (Star k # r) t (Suc pos) dn (ext [x] cur) = Some m"
    by (auto split: if_splits)
  from star_elim[OF this(2)] obtain xs rest where
    "t = xs @ rest" "\<forall>x\<in>set xs. in_cls k x"
    "rx_match r rest (Suc pos + length xs) dn (ext xs (ext [x] cur)) = Some m" by blast
  with x Cons show ?thesis
    by (intro exI[of _ "x # xs"] exI[of _ rest]) simp
qed

lemma lit_elim:
  "rx_match (Lit c # r) s pos dn cur = Some m \<Longrightarrow>
   \<exists>t. s = c # t \<and> rx_match r t (Suc pos) dn (ext [c] cur) = Some m"
  by (cases s) (auto split: if_splits)

lemma search_Bol: "0 < pos \<Longrightarrow> rx_search (Bol # r) s pos = None"
  by (induction s arbitrary: pos) auto

lemma search_Bol0: "rx_search (Bol # r) s 0 = rx_match r s 0 [] None"
  by (cases s) (auto simp: search_Bol split: option.splits)

lemma version_re_shape:
  assumes "rx_match version_re s 0 [] None = Some m"
  shows "\<exists>ds a b c d rg. ds \<noteq> [] \<and> (\<forall>x\<in>set ds. in_cls Digit x) \<and>
           a \<noteq> [] \<and> (\<forall>x\<in>set a. in_cls Digit x) \<and>
           b \<noteq> [] \<and> (\<forall>x\<in>set b. in_cls Digit x) \<and>
           c \<noteq> [] \<and> (\<forall>x\<in>set c. in_cls Digit x) \<and>
           d \<noteq> [] \<and> (\<forall>x\<in>set d. in_cls Digit x) \<and>
           rg \<noteq> [] \<and> (\<forall>x\<in>set rg. in_cls UpperOrDigit x) \<and>
           s = ''CPH'' @ ds @ ''_'' @ a @ ''.'' @ b @ ''.'' @ c @ ''.'' @ d @ ''('' @ rg @ '')''"
  using assms unfolding version_re_def
  apply (simp del: in_cls.simps)
  apply (drule lit_elim, elim exE conjE)
  apply (drule lit_elim, elim exE conjE)
  apply (drule lit_elim, elim exE conjE)
  apply (drule plus_elim, elim exE conjE)
  apply (simp del: in_cls.simps)
  apply (drule lit_elim, elim exE conjE)
  apply (simp del: in_cls.simps)
  apply (drule plus_elim, elim exE conjE)
  apply (drule lit_elim, elim exE conjE)
  apply (drule plus_elim, elim exE conjE)
  apply (drule lit_elim, elim exE conjE)
  apply (drule plus_elim, elim exE conjE)
  apply (drule lit_elim, elim exE conjE)
  apply (drule plus_elim, elim exE conjE)
  apply (simp del: in_cls.simps)
  apply (drule lit_elim, elim exE conjE)
  apply (simp del: in_cls.simps)
  apply (drule plus_elim, elim exE conjE)
  apply (simp del: in_cls.simps)
  apply (drule lit_elim, elim exE conjE)
  apply (simp del: in_cls.simps split: if_splits)
  apply blast
  done

lemma cls_sep:
  "\<not> in_cls Digit CHR ''_''" "\<not> in_cls Digit CHR ''.''" "\<not> in_cls Digit CHR ''(''"
  "\<not> in_cls UpperOrDigit CHR '')''"
  by simp_all

lemma search_version: "rx_search version_re s 0 = rx_match version_re s 0 [] None"
  unfolding version_re_def by (subst search_Bol0) simp

lemma version_re_accepts:
  assumes ds: "ds \<noteq> []" "\<forall>x\<in>set ds. in_cls Digit x"
      and a: "a \<noteq> []" "\<forall>x\<in>set a. in_cls Digit x"
      and b: "b \<noteq> []" "\<forall>x\<in>set b. in_cls Digit x"
      and c: "c \<noteq> []" "\<forall>x\<in>set c. in_cls Digit x"
      and d: "d \<noteq> []" "\<forall>x\<in>set d. in_cls Digit x"
      and rg: "rg \<noteq> []" "\<forall>x\<in>set rg. in_cls UpperOrDigit x"
  shows "rx_match version_re
           (''CPH'' @ ds @ ''_'' @ a @ ''.'' @ b @ ''.'' @ c @ ''.'' @ d @ ''('' @ rg @ '')'') 0 [] None
         = Some [''CPH'' @ ds, a @ ''.'' @ b @ ''.'' @ c @ ''.'' @ d, rg]"
proof -
  let ?R = "[Close, Lit CHR '')'', Eol]"
  let ?D = "Close # Lit CHR ''('' # Open # Plus UpperOrDigit # ?R"
  let ?C = "Lit CHR ''.'' # Plus Digit # ?D"
  let ?B = "Lit CHR ''.'' # Plus Digit # ?C"
  let ?A = "Lit CHR ''.'' # Plus Digit # ?B"
  let ?M = "Close # Lit CHR ''_'' # Open # Plus Digit # ?A"
  have r: "rx_match (Plus UpperOrDigit # ?R) (rg @ '')'') p [m, v] (Some []) = Some [m, v, rg]"
    for p m v
    by (rule plus_greedy) (simp_all add: rg cls_sep del: in_cls.simps)
  have d: "rx_match (Plus Digit # ?D) (d @ ''('' @ rg @ '')'') p [m] (Some g) = Some [m, g @ d, rg]"
    for p m g
    by (rule plus_greedy) (simp_all add: d r cls_sep del: in_cls.simps)
  have c: "rx_match (Plus Digit # ?C) (c @ ''.'' @ d @ ''('' @ rg @ '')'') p [m] (Some g)
           = Some [m, g @ c @ ''.'' @ d, rg]" for p m g
    by (rule plus_greedy) (use d [of _ m "g @ c @ ''.''"] in \<open>simp_all add: c cls_sep del: in_cls.simps\<close>)
  have b: "rx_match (Plus Digit # ?B) (b @ ''.'' @ c @ ''.'' @ d @ ''('' @ rg @ '')'') p [m] (Some g)
           = Some [m, g @ b @ ''.'' @ c @ ''.'' @ d, rg]" for p m g
    by (rule plus_greedy) (use c [of _ m "g @ b @ ''.''"] in \<open>simp_all add: b cls_sep del: in_cls.simps\<close>)
  have a: "rx_match (Plus Digit # ?A)
             (a @ ''.'' @ b @ ''.'' @ c @ ''.'' @ d @ ''('' @ rg @ '')'') p [m] (Some g)
           = Some [m, g @ a @ ''.'' @ b @ ''.'' @ c @ ''.'' @ d, rg]" for p m g
    by (rule plus_greedy) (use b [of _ m "g @ a @ ''.''"] in \<open>simp_all add: a cls_sep del: in_cls.simps\<close>)
  have m: "rx_match (Plus Digit # ?M)
             (ds @ ''_'' @ a @ ''.'' @ b @ ''.'' @ c @ ''.'' @ d @ ''('' @ rg @ '')'') p [] (Some g)
           = Some [g @ ds, a @ ''.'' @ b @ ''.'' @ c @ ''.'' @ d, rg]" for p g
    by (rule plus_greedy) (use a [of _ "g @ ds" "[]"] in \<open>simp_all add: ds cls_sep del: in_cls.simps\<close>)
  show ?thesis
    using m [of _ "''CPH''"] by (simp add: version_re_def del: in_cls.simps)
qed

lemma parseVersion_accepts:
  assumes "version_shape m v rg raw"
  shows "parseVersion raw = Some \<lparr>modelCode = m, version = v, regionCode = rg, fullVersion = raw\<rparr>"
proof -
  from assms obtain ds a b c d where
    p: "digits1 ds" "digits1 a" "digits1 b" "digits1 c" "digits1 d" "region1 rg"
    and m: "m = ''CPH'' @ ds" and v: "v = a @ ''.'' @ b @ ''.'' @ c @ ''.'' @ d"
    and raw: "raw = m @ ''_'' @ v @ ''('' @ rg @ '')''"
    unfolding version_shape_def by blast
  have "rx_match version_re
          (''CPH'' @ ds @ ''_'' @ a @ ''.'' @ b @ ''.'' @ c @ ''.'' @ d @ ''('' @ rg @ '')'') 0 [] None
        = Some [''CPH'' @ ds, a @ ''.'' @ b @ ''.'' @ c @ ''.'' @ d, rg]"
    using p unfolding digits1_def region1_def by (intro version_re_accepts) blast+
  then have "rx_search version_re raw 0 = Some [m, v, rg]"
    unfolding search_version by (simp add: raw m v)
  then show ?thesis by (simp add: parseVersion_def)
qed

lemma parseVersion_rejects:
  assumes "parseVersion raw \<noteq> None"
  shows "\<exists>m v rg. version_shape m v rg raw"
proof -
  from assms obtain g where "rx_match version_re raw 0 [] None = Some g"
    unfolding parseVersion_def search_version by (auto split: option.splits)
  from version_re_shape[OF this] obtain ds a b c d rg where
    "digits1 ds" "digits1 a" "digits1 b" "digits1 c" "digits1 d" "region1 rg"
    "raw = (''CPH'' @ ds) @ ''_'' @ (a @ ''.'' @ b @ ''.'' @ c @ ''.'' @ d) @ ''('' @ rg @ '')''"
    unfolding digits1_def region1_def by auto
  then have "version_shape (''CPH'' @ ds) (a @ ''.'' @ b @ ''.'' @ c @ ''.'' @ d) rg raw"
    unfolding version_shape_def by blast
  then show ?thesis by blast
qed

text \<open>
  Claim C2. A string of the shape model code, underscore, four numeric segments separated by
  dots, region code in parentheses (\<open>version_shape\<close>: the model code is \<open>CPH\<close> and digits, a
  segment is one or more digits, the region code is one or more upper-case letters or
  digits) is parsed into the record of its three parts with \<open>fullVersion\<close> the string itself;
  a string that has no such shape is parsed to \<open>null\<close>.
\<close>

theorem parseVersion_grammar:
  "(version_shape m v rg raw \<longrightarrow>
      parseVersion raw = Some \<lparr>modelCode = m, version = v, regionCode = rg, fullVersion = raw\<rparr>) \<and>
   ((\<nexists>m v rg. version_shape m v rg raw) \<longrightarrow> parseVersion raw = None)"
  using parseVersion_accepts parseVersion_rejects by blast

theorem parseVersion_grammar_witness:
  "version_shape ''CPH2551'' ''15.0.0.822'' ''EX01'' ''CPH2551_15.0.0.822(EX01)'' \<and>
   parseVersion ''CPH2551_15.0.0.822(EX01)'' =
     Some \<lparr>modelCode = ''CPH2551'', version = ''15.0.0.822'', regionCode = ''EX01'',
            fullVersion = ''CPH2551_15.0.0.822(EX01)''\<rparr> \<and>
   (\<nexists>m v rg. version_shape m v rg ''CPH2551_15.0.0.822(ex01)'') \<and>
   parseVersion ''CPH2551_15.0.0.822(ex01)'' = None"
proof -
  have d: "digits1 ''2551''" "digits1 ''15''" "digits1 ''0''" "digits1 ''822''" "region1 ''EX01''"
    by code_simp+
  have s: "version_shape ''CPH2551'' ''15.0.0.822'' ''EX01'' ''CPH2551_15.0.0.822(EX01)''"
    unfolding version_shape_def
    by (intro conjI exI[of _ "''2551''"] exI[of _ "''15''"] exI[of _ "''0''"] exI[of _ "''822''"] d)
       simp_all
  have n: "parseVersion ''CPH2551_15.0.0.822(ex01)'' = None"
    by code_simp
  have n': "\<nexists>m v rg. version_shape m v rg ''CPH2551_15.0.0.822(ex01)''"
    using parseVersion_grammar [THEN conjunct1, of _ _ _ "''CPH2551_15.0.0.822(ex01)''"] n by auto
  show ?thesis
    using s n n'
      parseVersion_grammar [THEN conjunct1, of "''CPH2551''" "''15.0.0.822''" "''EX01''"
        "''CPH2551_15.0.0.822(EX01)''"]
    by blast
qed

section \<open>Properties of the release catalogue\<close>

lemma fetchReleases_cached:
  "releasesCache svc = Some rs \<Longrightarrow> fetchReleases net svc = (Inr rs, svc, [])"
  by (simp add: fetchReleases_def)

lemma fetchReleases_miss_requests:
  "releasesCache svc = None \<Longrightarrow> snd (snd (fetchReleases net svc)) = [releases_url]"
  by (simp add: fetchReleases_def split: sum.splits)

lemma fetchReleases_Inr:
  "fetchReleases net svc = (Inr rs, svc', rq) \<Longrightarrow> releasesCache svc' = Some rs"
  by (auto simp: fetchReleases_def split: option.splits sum.splits if_splits)

lemma fetchReleases_Inl:
  "fetchReleases net svc = (Inl e, svc', rq) \<Longrightarrow> svc' = svc \<and> releasesCache svc = None"
  by (auto simp: fetchReleases_def split: option.splits sum.splits if_splits)

lemma find_first_index:
  "find P xs = Some x \<Longrightarrow> \<exists>i<length xs. xs ! i = x \<and> P x \<and> (\<forall>j<i. \<not> P (xs ! j))"
  by (auto simp: find_Some_iff)

text \<open>
  Claim C8. When the catalogue is the list \<open>releases\<close>, \<open>findMatchingRelease\<close> answers with the
  first entry of the list whose tag is the query string, and with \<open>null\<close> when no entry has
  that tag. So an entry it returns never has a tag that differs from the query.
\<close>

theorem findMatchingRelease_exact:
  assumes "fetchReleases net svc = (Inr releases, svc', rq)"
  shows "\<exists>found. findMatchingRelease net svc q = (Inr found, svc', rq) \<and>
           (case found of
              None \<Rightarrow> \<forall>r\<in>set releases. tag_name r \<noteq> q
            | Some r \<Rightarrow>
                \<exists>i<length releases. releases ! i = r \<and> tag_name r = q \<and>
                  (\<forall>j<i. tag_name (releases ! j) \<noteq> q))"
proof (cases "find (\<lambda>r. tag_name r = q) releases")
  case None
  then have "\<forall>r\<in>set releases. tag_name r \<noteq> q"
    by (simp add: find_None_iff)
  with None assms show ?thesis
    by (simp add: findMatchingRelease_def)
next
  case (Some r)
  from find_first_index[OF Some] Some assms show ?thesis
    by (simp add: findMatchingRelease_def)
qed


theorem findMatchingRelease_exact_witness:
  "fetchReleases offline \<lparr>releasesCache = Some [release_A, release_B, release_B']\<rparr>
     = (Inr [release_A, release_B, release_B'],
        \<lparr>releasesCache = Some [release_A, release_B, release_B']\<rparr>, []) \<and>
   fst (findMatchingRelease offline \<lparr>releasesCache = Some [release_A, release_B, release_B']\<rparr>
          ''CPH2551_15.0.0.840(EX01)'') = Inr (Some release_B) \<and>
   fst (findMatchingRelease offline \<lparr>releasesCache = Some [release_A, release_B, release_B']\<rparr>
          ''cph2551_15.0.0.840(EX01)'') = Inr None \<and>
   fst (findMatchingRelease offline \<lparr>releasesCache = Some [release_A, release_B, release_B']\<rparr>
          ''CPH2551_15.0.0.840(EX01) '') = Inr None"
proof -
  let ?svc = "\<lparr>releasesCache = Some [release_A, release_B, release_B']\<rparr>"
  have h: "fetchReleases offline ?svc = (Inr [release_A, release_B, release_B'], ?svc, [])"
    by (simp add: fetchReleases_def)
  show ?thesis
    using h findMatchingRelease_exact [OF h, of "''CPH2551_15.0.0.840(EX01)''"]
    by (simp add: findMatchingRelease_def release_A_def release_B_def release_B'_def)
qed

text \<open>
  Claim C10. A call of \<open>fetchReleases\<close> that fails leaves the service as it was, with the cache
  unset, and the next call asks the network again; with the cache unset, a \<open>fetch\<close> that
  throws and a response that is not \<open>ok\<close> make the call fail.
\<close>

theorem fetchReleases_failure_leaves_cache_unset:
  "(fetchReleases net svc = (Inl err, svc', rq) \<longrightarrow>
      svc' = svc \<and> releasesCache svc' = None \<and>
      (\<forall>net2. snd (snd (fetchReleases net2 svc')) = [releases_url])) \<and>
   (releasesCache svc = None \<and>
    (isl (net releases_url) \<or> (\<exists>response. net releases_url = Inr response \<and> \<not> ok response)) \<longrightarrow>
      isl (fst (fetchReleases net svc)))"
proof (intro conjI impI)
  assume f: "fetchReleases net svc = (Inl err, svc', rq)"
  from fetchReleases_Inl[OF f] show "svc' = svc" by simp
  from fetchReleases_Inl[OF f] show "releasesCache svc' = None" by simp
  from fetchReleases_Inl[OF f] show "\<forall>net2. snd (snd (fetchReleases net2 svc')) = [releases_url]"
    by (simp add: fetchReleases_miss_requests)
next
  assume "releasesCache svc = None \<and>
    (isl (net releases_url) \<or> (\<exists>response. net releases_url = Inr response \<and> \<not> ok response))"
  then show "isl (fst (fetchReleases net svc))"
    by (auto simp: fetchReleases_def isl_def)
qed


lemma show_nat_404: "show_nat 404 = ''404''"
  by (simp add: show_nat.simps digit_char_def)

theorem fetchReleases_failure_leaves_cache_unset_witness:
  "fetchReleases (\<lambda>url. Inr not_found_response) \<lparr>releasesCache = None\<rparr> =
     (Inl (Error ''Failed to fetch releases: 404 Not Found''), \<lparr>releasesCache = None\<rparr>, [releases_url]) \<and>
   snd (snd (fetchReleases (\<lambda>url. Inr not_found_response) \<lparr>releasesCache = None\<rparr>)) = [releases_url] \<and>
   isl (fst (fetchReleases offline \<lparr>releasesCache = None\<rparr>))"
proof -
  have h: "fetchReleases (\<lambda>url. Inr not_found_response) \<lparr>releasesCache = None\<rparr> =
     (Inl (Error ''Failed to fetch releases: 404 Not Found''), \<lparr>releasesCache = None\<rparr>, [releases_url])"
    by (simp add: fetchReleases_def not_found_response_def show_nat_404)
  have o: "isl (offline releases_url)" by (simp add: offline_def)
  show ?thesis
    using h o
      fetchReleases_failure_leaves_cache_unset
        [of "\<lambda>url. Inr not_found_response" "\<lparr>releasesCache = None\<rparr>"
            "Error ''Failed to fetch releases: 404 Not Found''" "\<lparr>releasesCache = None\<rparr>"
            "[releases_url]"]
      fetchReleases_failure_leaves_cache_unset
        [of offline "\<lparr>releasesCache = None\<rparr>"]
    by simp
qed

section \<open>Properties of the download\<close>

lemma read_loop_result:
  "fst (read_loop tot cs fin chunks ld) =
     (case fin of None \<Rightarrow> Inr (concat chunks @ concat cs) | Some e \<Rightarrow> Inl e)"
  by (induction cs arbitrary: chunks ld) (auto simp: Let_def case_prod_unfold split: option.splits)

lemma read_loop_length: "length (snd (read_loop tot cs fin chunks ld)) = length cs"
  by (induction cs arbitrary: chunks ld) (auto simp: Let_def case_prod_unfold split: option.splits)

lemma read_loop_loaded:
  "k < length cs \<Longrightarrow>
   loaded (snd (read_loop tot cs fin chunks ld) ! k) = ld + sum_list (map length (take (Suc k) cs))"
proof (induction cs arbitrary: chunks ld k)
  case Nil
  then show ?case by simp
next
  case (Cons v rest)
  show ?case
  proof (cases k)
    case 0
    then show ?thesis by (simp add: progress_event_def Let_def case_prod_unfold)
  next
    case (Suc j)
    with Cons.prems have "j < length rest" by simp
    from Cons.IH[OF this, of "chunks @ [v]" "ld + length v"] Suc show ?thesis
      by (simp add: Let_def case_prod_unfold)
  qed
qed

lemma read_loop_sorted:
  "sorted (map loaded (snd (read_loop tot cs fin chunks ld))) \<and>
   (\<forall>p\<in>set (snd (read_loop tot cs fin chunks ld)). ld \<le> loaded p)"
proof (induction cs arbitrary: chunks ld)
  case Nil
  then show ?case by (simp split: option.splits)
next
  case (Cons v rest)
  from Cons.IH[of "chunks @ [v]" "ld + length v"] show ?case
    by (auto simp: progress_event_def Let_def case_prod_unfold)
qed

text \<open>
  Claim C9. When the reader delivers the chunks \<open>cs\<close> and then reports \<open>done\<close>, the blob is the
  concatenation of the chunks in the order of arrival, its length is the sum of their
  lengths, \<open>onProgress\<close> is called once per chunk, the \<open>k\<close>-th call reports as \<open>loaded\<close> the total
  length of the first \<open>k\<close> chunks, and the reported values never decrease.
\<close>

theorem downloadWithProgress_assembles:
  assumes "body response = Stream cs None"
  shows "\<exists>evs. downloadWithProgress response = (Inr (concat cs), evs) \<and>
           length (concat cs) = sum_list (map length cs) \<and>
           length evs = length cs \<and>
           (\<forall>k<length cs. loaded (evs ! k) = sum_list (map length (take (Suc k) cs))) \<and>
           sorted (map loaded evs)"
proof -
  let ?tot = "case contentLength response of Some n \<Rightarrow> n | None \<Rightarrow> 0"
  let ?res = "read_loop ?tot cs None [] 0"
  have d: "downloadWithProgress response = ?res"
    using assms by (simp add: downloadWithProgress_def)
  have "fst ?res = Inr (concat cs)"
    by (simp add: read_loop_result)
  then have 1: "downloadWithProgress response = (Inr (concat cs), snd ?res)"
    using d by (metis prod.collapse)
  have 2: "length (concat cs) = sum_list (map length cs)"
    by (simp add: length_concat)
  have 3: "length (snd ?res) = length cs"
    by (rule read_loop_length)
  have 4: "\<forall>k<length cs. loaded (snd ?res ! k) = sum_list (map length (take (Suc k) cs))"
    using read_loop_loaded[of _ cs ?tot None "[]" 0] by simp
  have 5: "sorted (map loaded (snd ?res))"
    using read_loop_sorted by blast
  from 1 2 3 4 5 show ?thesis by blast
qed


theorem downloadWithProgress_assembles_witness:
  "body three_chunks = Stream [[1, 2], [], [3, 4, 5]] None \<and>
   fst (downloadWithProgress three_chunks) = Inr [1, 2, 3, 4, 5] \<and>
   map loaded (snd (downloadWithProgress three_chunks)) = [2, 2, 5]"
proof -
  have h: "body three_chunks = Stream [[1, 2], [], [3, 4, 5]] None"
    by (simp add: three_chunks_def)
  have e: "map loaded (snd (downloadWithProgress three_chunks)) = [2, 2, 5]"
    by (simp add: downloadWithProgress_def three_chunks_def progress_event_def Let_def)
  from downloadWithProgress_assembles [OF h] h e show ?thesis
    by auto
qed

lemma try_proxies_first_success:
  "k < length ps \<Longrightarrow> \<forall>j<k. isl (fst (attempt (net (i + j)) ((ps ! j) url))) \<Longrightarrow>
   fst (attempt (net (i + k)) ((ps ! k) url)) = Inr b \<Longrightarrow>
   \<exists>evs. try_proxies ps net url i le = (Inr b, evs, map (\<lambda>mk. mk url) (take (Suc k) ps))"
proof (induction ps arbitrary: i k le)
  case Nil
  then show ?case by simp
next
  case (Cons mk rest)
  show ?case
  proof (cases k)
    case 0
    with Cons.prems(3) obtain evs0 where "attempt (net i) (mk url) = (Inr b, evs0)"
      by (cases "attempt (net i) (mk url)") auto
    with 0 show ?thesis by (simp add: Let_def)
  next
    case (Suc k')
    from Cons.prems(2) Suc have "isl (fst (attempt (net (i + 0)) (((mk # rest) ! 0) url)))"
      by blast
    then obtain e evs0 where a: "attempt (net i) (mk url) = (Inl e, evs0)"
      by (cases "attempt (net i) (mk url)") (auto simp: isl_def)
    have "\<forall>j<k'. isl (fst (attempt (net (Suc i + j)) ((rest ! j) url)))"
    proof (intro allI impI)
      fix j assume "j < k'"
      then have "Suc j < k" using Suc by simp
      from Cons.prems(2)[rule_format, OF this] show "isl (fst (attempt (net (Suc i + j)) ((rest ! j) url)))"
        by simp
    qed
    moreover have "k' < length rest" using Cons.prems(1) Suc by simp
    moreover have "fst (attempt (net (Suc i + k')) ((rest ! k') url)) = Inr b"
      using Cons.prems(3) Suc by simp
    ultimately obtain evs where
      "try_proxies rest net url (Suc i) (Some e) = (Inr b, evs, map (\<lambda>mk. mk url) (take (Suc k') rest))"
      using Cons.IH[of k' "Suc i" "Some e"] by blast
    with a Suc show ?thesis by (simp add: Let_def)
  qed
qed

lemma try_proxies_all_fail:
  "\<forall>j<length ps. isl (fst (attempt (net (i + j)) ((ps ! j) url))) \<Longrightarrow>
   \<exists>evs. try_proxies ps net url i le =
     (Inl (Error (''Download failed: '' @
        failure_text (if ps = [] then le
                      else Some (projl (fst (attempt (net (i + (length ps - 1))) ((ps ! (length ps - 1)) url))))))),
      evs, map (\<lambda>mk. mk url) ps)"
proof (induction ps arbitrary: i le)
  case Nil
  then show ?case by simp
next
  case (Cons mk rest)
  from Cons.prems have "isl (fst (attempt (net (i + 0)) (((mk # rest) ! 0) url)))"
    by blast
  then obtain e evs0 where a: "attempt (net i) (mk url) = (Inl e, evs0)"
    by (cases "attempt (net i) (mk url)") (auto simp: isl_def)
  have "\<forall>j<length rest. isl (fst (attempt (net (Suc i + j)) ((rest ! j) url)))"
  proof (intro allI impI)
    fix j assume "j < length rest"
    then have "Suc j < length (mk # rest)" by simp
    from Cons.prems[rule_format, OF this] show "isl (fst (attempt (net (Suc i + j)) ((rest ! j) url)))"
      by simp
  qed
  from Cons.IH[OF this, of "Some e"] obtain evs where
    r: "try_proxies rest net url (Suc i) (Some e) =
     (Inl (Error (''Download failed: '' @
        failure_text (if rest = [] then Some e
                      else Some (projl (fst (attempt (net (Suc i + (length rest - 1))) ((rest ! (length rest - 1)) url))))))),
      evs, map (\<lambda>mk. mk url) rest)" by blast
  show ?case
  proof (cases rest)
    case Nil
    with a r show ?thesis by (simp add: Let_def)
  next
    case (Cons mk' rest')
    with a r show ?thesis by (simp add: Let_def)
  qed
qed

lemma failure_text_suffix: "suffix m (failure_text (Some (Error m))) \<and> (m \<noteq> [] \<longrightarrow> failure_text (Some (Error m)) = m)"
  by (simp add: suffix_def)

text \<open>
  Claim C3. \<open>downloadAsset\<close> runs the loop \<open>try_proxies\<close> over its list of proxies. For every
  list of proxies and every URL: when the proxies before the \<open>k\<close>-th fail and the \<open>k\<close>-th
  succeeds, the URLs fetched are those of the first \<open>k + 1\<close> proxies in the order of the list
  and the result is the blob of the \<open>k\<close>-th; when all fail, every proxy was fetched, in order,
  and the error thrown has the message \<open>Download failed:\<close> followed by a text that ends
  with the message of the last failure, and is that message when it is not empty.
\<close>

theorem downloadAsset_tries_proxies_in_order:
  "(k < length ps \<and> (\<forall>j<k. isl (outcome net url ps j)) \<and> outcome net url ps k = Inr b \<longrightarrow>
      (\<exists>evs. try_proxies ps net url 0 None = (Inr b, evs, map (\<lambda>mk. mk url) (take (Suc k) ps)))) \<and>
   ((\<forall>j<length ps. isl (outcome net url ps j)) \<longrightarrow>
      (\<exists>msg evs. try_proxies ps net url 0 None =
                    (Inl (Error (''Download failed: '' @ msg)), evs, map (\<lambda>mk. mk url) ps) \<and>
         (\<forall>m. ps \<noteq> [] \<and> outcome net url ps (length ps - 1) = Inl (Error m) \<longrightarrow>
              suffix m msg \<and> (m \<noteq> [] \<longrightarrow> msg = m)))) \<and>
   downloadAsset net url = try_proxies CORS_PROXIES net url 0 None"
proof (intro conjI impI)
  assume "k < length ps \<and> (\<forall>j<k. isl (outcome net url ps j)) \<and> outcome net url ps k = Inr b"
  then show "\<exists>evs. try_proxies ps net url 0 None = (Inr b, evs, map (\<lambda>mk. mk url) (take (Suc k) ps))"
    using try_proxies_first_success[of k ps net 0 url b None] by (simp add: outcome_def)
next
  assume "\<forall>j<length ps. isl (outcome net url ps j)"
  then have "\<forall>j<length ps. isl (fst (attempt (net (0 + j)) ((ps ! j) url)))"
    by (simp add: outcome_def)
  from try_proxies_all_fail[OF this, of None] obtain evs where
    t: "try_proxies ps net url 0 None =
     (Inl (Error (''Download failed: '' @
        failure_text (if ps = [] then None
                      else Some (projl (outcome net url ps (length ps - 1)))))),
      evs, map (\<lambda>mk. mk url) ps)"
    by (auto simp: outcome_def)
  let ?msg = "failure_text (if ps = [] then None else Some (projl (outcome net url ps (length ps - 1))))"
  have "\<forall>m. ps \<noteq> [] \<and> outcome net url ps (length ps - 1) = Inl (Error m) \<longrightarrow>
              suffix m ?msg \<and> (m \<noteq> [] \<longrightarrow> ?msg = m)"
    using failure_text_suffix by auto
  with t show "\<exists>msg evs. try_proxies ps net url 0 None =
                    (Inl (Error (''Download failed: '' @ msg)), evs, map (\<lambda>mk. mk url) ps) \<and>
         (\<forall>m. ps \<noteq> [] \<and> outcome net url ps (length ps - 1) = Inl (Error m) \<longrightarrow>
              suffix m msg \<and> (m \<noteq> [] \<longrightarrow> msg = m))"
    by blast
next
  show "downloadAsset net url = try_proxies CORS_PROXIES net url 0 None"
    by (simp add: downloadAsset_def)
qed


lemma show_nat_502: "show_nat 502 = ''502''"
  by (simp add: show_nat.simps digit_char_def)

theorem downloadAsset_tries_proxies_in_order_witness:
  "isl (outcome second_answers ''u'' two_proxies 0) \<and>
   outcome second_answers ''u'' two_proxies 1 = Inr [7, 8, 9] \<and>
   fst (try_proxies two_proxies second_answers ''u'' 0 None) = Inr [7, 8, 9] \<and>
   snd (snd (try_proxies two_proxies second_answers ''u'' 0 None)) =
     [''https://one.example/?u'', ''https://two.example/?u''] \<and>
   isl (outcome none_answers ''u'' two_proxies 0) \<and>
   outcome none_answers ''u'' two_proxies 1 = Inl (Error ''502'') \<and>
   fst (try_proxies two_proxies none_answers ''u'' 0 None) = Inl (Error ''Download failed: 502'') \<and>
   snd (snd (try_proxies two_proxies none_answers ''u'' 0 None)) =
     [''https://one.example/?u'', ''https://two.example/?u'']"
proof -
  have a0: "isl (outcome second_answers ''u'' two_proxies 0)"
    by (simp add: outcome_def attempt_def second_answers_def two_proxies_def)
  have a1: "outcome second_answers ''u'' two_proxies 1 = Inr [7, 8, 9]"
    by (simp add: outcome_def attempt_def second_answers_def two_proxies_def small_image_def
        downloadWithProgress_def Let_def)
  have b0: "isl (outcome none_answers ''u'' two_proxies 0)"
    by (simp add: outcome_def attempt_def none_answers_def two_proxies_def)
  have b1: "outcome none_answers ''u'' two_proxies 1 = Inl (Error ''502'')"
    by (simp add: outcome_def attempt_def none_answers_def two_proxies_def bad_gateway_def show_nat_502)
  have l: "length two_proxies = 2" "two_proxies \<noteq> []"
    by (simp_all add: two_proxies_def)
  have a: "\<forall>j<1. isl (outcome second_answers ''u'' two_proxies j)"
    using a0 by simp
  have b: "\<forall>j<length two_proxies. isl (outcome none_answers ''u'' two_proxies j)"
    using b0 b1 l by (auto simp: less_Suc_eq numeral_2_eq_2)
  have m: "map (\<lambda>mk. mk ''u'') two_proxies = [''https://one.example/?u'', ''https://two.example/?u'']"
    by (simp add: two_proxies_def)
  from downloadAsset_tries_proxies_in_order
         [of 1 two_proxies second_answers "''u''" "[7, 8, 9]", THEN conjunct1] a a1 l
  obtain evs where
    s: "try_proxies two_proxies second_answers ''u'' 0 None =
          (Inr [7, 8, 9], evs, map (\<lambda>mk. mk ''u'') (take (Suc 1) two_proxies))"
    by auto
  from downloadAsset_tries_proxies_in_order
         [of _ two_proxies none_answers "''u''", THEN conjunct2, THEN conjunct1] b b1 l
  obtain msg evs' where
    f: "try_proxies two_proxies none_answers ''u'' 0 None =
          (Inl (Error (''Download failed: '' @ msg)), evs', map (\<lambda>mk. mk ''u'') two_proxies)"
    and "msg = ''502''"
    by auto
  with s a0 a1 b0 b1 m l show ?thesis by simp
qed

section \<open>Properties of the controller\<close>

lemmas prim_defs = addLog_def setState_def setError_def await_def

lemma onClick_in_progress: "onClick (in_progress op) = []"
  by (cases op) simp_all

lemma onClick_iff:
  "ConnectAdb \<in> set (onClick st) \<longleftrightarrow> st = IDLE \<or> st = WAITING_ADB_CONNECT"
  "DownloadImage \<in> set (onClick st) \<longleftrightarrow> st = RELEASE_MATCHED"
  "ConfirmFlash \<in> set (onClick st) \<longleftrightarrow> st = DOWNLOAD_COMPLETE"
  "RebootToBootloader \<in> set (onClick st) \<longleftrightarrow> st = CONFIRMING_FLASH"
  "ConnectFastboot \<in> set (onClick st) \<longleftrightarrow> st = WAITING_FASTBOOT"
  "Reset \<in> set (onClick st) \<longleftrightarrow>
     st = RELEASE_NOT_FOUND \<or> st = CONFIRMING_FLASH \<or> st = SUCCESS \<or> st = ERROR"
  by (cases st; simp)+

lemma inv_no_pending_at_click:
  assumes "single_flight s" "h \<in> set (onClick (state (appState s)))"
  shows "pending s = []"
proof (rule ccontr)
  assume "pending s \<noteq> []"
  then obtain op where "op \<in> set (pending s)" by (cases "pending s") auto
  with assms(1) have "state (appState s) = in_progress op"
    by (simp add: single_flight_def)
  with assms(2) show False by (simp add: onClick_in_progress)
qed

lemma inv_one_pending:
  assumes "single_flight s" "n < length (pending s)"
  shows "\<exists>op. n = 0 \<and> pending s = [op] \<and> state (appState s) = in_progress op"
proof -
  from assms have l: "length (pending s) = 1" by (simp add: single_flight_def)
  then obtain op where p: "pending s = [op]" by (cases "pending s") auto
  with assms show ?thesis by (simp add: single_flight_def)
qed

lemma connectAdb_inv:
  "pending s = [] \<Longrightarrow> imageBlob (appState s) = None \<Longrightarrow> controller_inv (connectAdb s)"
  by (simp add: controller_inv_def single_flight_def connectAdb_def checkBrowser_def prim_defs Let_def)

lemma reset_inv: "pending s = [] \<Longrightarrow> controller_inv (reset s)"
  by (simp add: controller_inv_def single_flight_def reset_def initialState_def)

lemma downloadImage_inv:
  "pending s = [] \<Longrightarrow> state (appState s) = RELEASE_MATCHED \<Longrightarrow> imageBlob (appState s) = None \<Longrightarrow>
   controller_inv (downloadImage s)"
  by (simp add: controller_inv_def single_flight_def downloadImage_def prim_defs Let_def
      split: option.splits)

lemma confirmFlash_inv: "pending s = [] \<Longrightarrow> controller_inv (confirmFlash s)"
  by (simp add: controller_inv_def single_flight_def confirmFlash_def prim_defs)

lemma rebootToBootloader_inv: "pending s = [] \<Longrightarrow> controller_inv (rebootToBootloader s)"
  by (simp add: controller_inv_def single_flight_def rebootToBootloader_def prim_defs Let_def)

lemma connectFastboot_inv: "pending s = [] \<Longrightarrow> controller_inv (connectFastboot s)"
  by (simp add: controller_inv_def single_flight_def connectFastboot_def prim_defs Let_def)

lemma click_inv:
  assumes "controller_inv s" "h \<in> set (onClick (state (appState s)))"
  shows "controller_inv (run_handler h s)"
proof -
  from assms have p: "pending s = []"
    using inv_no_pending_at_click by (simp add: controller_inv_def)
  from assms(1) have b: "early (state (appState s)) \<longrightarrow> imageBlob (appState s) = None"
    by (simp add: controller_inv_def)
  show ?thesis
  proof (cases h)
    case ConnectAdb
    with assms(2) b have "imageBlob (appState s) = None" by (auto simp: onClick_iff)
    with p ConnectAdb show ?thesis by (simp add: connectAdb_inv)
  next
    case Reset
    with p show ?thesis by (simp add: reset_inv)
  next
    case DownloadImage
    with assms(2) b have "state (appState s) = RELEASE_MATCHED" "imageBlob (appState s) = None"
      by (auto simp: onClick_iff)
    with p DownloadImage show ?thesis by (simp add: downloadImage_inv)
  next
    case ConfirmFlash
    with p show ?thesis by (simp add: confirmFlash_inv)
  next
    case RebootToBootloader
    with p show ?thesis by (simp add: rebootToBootloader_inv)
  next
    case ConnectFastboot
    with p show ?thesis by (simp add: connectFastboot_inv)
  qed
qed


lemma fold_onDownloadProgress:
  "fold onDownloadProgress evs s =
     (if evs = [] then s else s\<lparr>appState := (appState s)\<lparr>downloadProgress := Some (last evs)\<rparr>\<rparr>)"
proof (induction evs arbitrary: s)
  case Nil
  then show ?case by simp
next
  case (Cons p evs)
  then show ?case by (simp add: onDownloadProgress_def)
qed

lemma fold_onFlashProgress:
  "fold onFlashProgress evs s =
     (if evs = [] then s else s\<lparr>appState := (appState s)\<lparr>flashProgress := Some (last evs)\<rparr>\<rparr>)"
proof (induction evs arbitrary: s)
  case Nil
  then show ?case by simp
next
  case (Cons p evs)
  then show ?case by (simp add: onFlashProgress_def)
qed

lemma connectAdb_connected_inv:
  "pending s = [] \<Longrightarrow> imageBlob (appState s) = None \<Longrightarrow> controller_inv (connectAdb_connected r s)"
  by (simp add: controller_inv_def single_flight_def connectAdb_connected_def
      detectFirmware_begin_def prim_defs Let_def split: sum.splits)

lemma connectAdb_detected_inv:
  "pending s = [] \<Longrightarrow> imageBlob (appState s) = None \<Longrightarrow> controller_inv (connectAdb_detected r s)"
  by (simp add: controller_inv_def single_flight_def connectAdb_detected_def detectFirmware_end_def
      findRelease_begin_def prim_defs Let_def split: sum.splits option.splits)

lemma findRelease_end_inv:
  "pending s = [] \<Longrightarrow> imageBlob (appState s) = None \<Longrightarrow> controller_inv (findRelease_end di r s)"
  by (simp add: controller_inv_def single_flight_def findRelease_end_def prim_defs Let_def
      split: sum.splits option.splits)

lemma downloadImage_end_inv:
  "pending s = [] \<Longrightarrow> controller_inv (downloadImage_end r evs s)"
  by (simp add: controller_inv_def single_flight_def downloadImage_end_def fold_onDownloadProgress
      prim_defs Let_def split: sum.splits)

lemma rebootToBootloader_rebooted_inv:
  "pending s = [] \<Longrightarrow> state (appState s) = REBOOTING_BOOTLOADER \<Longrightarrow>
   controller_inv (rebootToBootloader_rebooted r s)"
  by (simp add: controller_inv_def single_flight_def rebootToBootloader_rebooted_def prim_defs
      split: sum.splits)

lemma rebootToBootloader_disconnected_inv:
  "pending s = [] \<Longrightarrow> controller_inv (rebootToBootloader_disconnected r s)"
  by (simp add: controller_inv_def single_flight_def rebootToBootloader_disconnected_def prim_defs
      Let_def split: sum.splits)

lemma connectFastboot_connected_inv:
  "pending s = [] \<Longrightarrow> state (appState s) = FASTBOOT_CONNECTING \<Longrightarrow>
   controller_inv (connectFastboot_connected captured r s)"
  by (simp add: controller_inv_def single_flight_def connectFastboot_connected_def
      connectFastboot_catch_def prim_defs Let_def split: sum.splits)

lemma connectFastboot_checked_inv:
  "pending s = [] \<Longrightarrow> controller_inv (connectFastboot_checked captured unlocked s)"
  by (simp add: controller_inv_def single_flight_def connectFastboot_checked_def
      flashImage_begin_def prim_defs Let_def split: option.splits)

lemma flashImage_end_inv:
  "pending s = [] \<Longrightarrow> controller_inv (flashImage_end r evs s)"
  by (simp add: controller_inv_def single_flight_def flashImage_end_def fold_onFlashProgress
      rebootSystem_begin_def prim_defs Let_def split: sum.splits)

lemma rebootSystem_end_inv:
  "pending s = [] \<Longrightarrow> controller_inv (rebootSystem_end r s)"
  by (simp add: controller_inv_def single_flight_def rebootSystem_end_def prim_defs Let_def
      split: sum.splits)

text \<open>What \<open>resume\<close> is for each call and the answer of its kind.\<close>

lemma resume_simps:
  "resume AdbConnect (AdbConnectDone env) s =
     Some (connectAdb_connected (fst (adb_connect (webusb s) env (adbService s)))
             (s\<lparr>adbService := snd (adb_connect (webusb s) env (adbService s))\<rparr>))"
  "resume GetDeviceInfo (GetDeviceInfoDone props) s =
     Some (connectAdb_detected (getDeviceInfo props (adbService s)) s)"
  "resume (FindMatchingRelease di) (FindMatchingReleaseDone net) s =
     Some (findRelease_end di (fst (findMatchingRelease net (githubService s) (firmwareVersion di)))
             (s\<lparr>githubService := fst (snd (findMatchingRelease net (githubService s) (firmwareVersion di))),
                fetched := fetched s @ snd (snd (findMatchingRelease net (githubService s) (firmwareVersion di)))\<rparr>))"
  "resume (DownloadAsset asset) (DownloadAssetDone dnet) s =
     Some (downloadImage_end (fst (downloadAsset dnet (browser_download_url asset)))
             (fst (snd (downloadAsset dnet (browser_download_url asset))))
             (s\<lparr>fetched := fetched s @ snd (snd (downloadAsset dnet (browser_download_url asset)))\<rparr>))"
  "resume AdbRebootToBootloader (AdbRebootToBootloaderDone uenv) s =
     Some (rebootToBootloader_rebooted (adb_rebootToBootloader uenv (adbService s)) s)"
  "resume AdbDisconnect (AdbDisconnectDone uenv) s =
     Some (rebootToBootloader_disconnected (fst (adb_disconnect uenv (adbService s)))
             (s\<lparr>adbService := snd (adb_disconnect uenv (adbService s))\<rparr>))"
  "resume (FastbootConnect captured) (FastbootConnectDone benv) s =
     Some (connectFastboot_connected captured (fst (fastboot_connect benv (fastbootService s)))
             (s\<lparr>fastbootService := snd (fastboot_connect benv (fastbootService s))\<rparr>))"
  "resume (IsBootloaderUnlocked captured) (IsBootloaderUnlockedDone dev) s =
     Some (connectFastboot_checked captured (isBootloaderUnlocked dev) s)"
  "resume (FlashInitBoot b) (FlashInitBootDone ps uenv) s =
     Some (flashImage_end (fst (flashInitBoot ps uenv b)) (snd (flashInitBoot ps uenv b)) s)"
  "resume FastbootReboot (FastbootRebootDone uenv) s = Some (rebootSystem_end (fastboot_reboot uenv) s)"
  by (simp_all add: resume_def case_prod_unfold)

lemma resume_kind:
  "resume op x s = Some s' \<Longrightarrow>
     (op = AdbConnect \<and> (\<exists>env. x = AdbConnectDone env)) \<or>
     (op = GetDeviceInfo \<and> (\<exists>props. x = GetDeviceInfoDone props)) \<or>
     (\<exists>di net. op = FindMatchingRelease di \<and> x = FindMatchingReleaseDone net) \<or>
     (\<exists>asset net. op = DownloadAsset asset \<and> x = DownloadAssetDone net) \<or>
     (op = AdbRebootToBootloader \<and> (\<exists>env. x = AdbRebootToBootloaderDone env)) \<or>
     (op = AdbDisconnect \<and> (\<exists>env. x = AdbDisconnectDone env)) \<or>
     (\<exists>captured env. op = FastbootConnect captured \<and> x = FastbootConnectDone env) \<or>
     (\<exists>captured dev. op = IsBootloaderUnlocked captured \<and> x = IsBootloaderUnlockedDone dev) \<or>
     (\<exists>b ps env. op = FlashInitBoot b \<and> x = FlashInitBootDone ps env) \<or>
     (op = FastbootReboot \<and> (\<exists>env. x = FastbootRebootDone env))"
  by (cases op; cases x; simp add: resume_def)


lemma settle_inv:
  assumes inv: "controller_inv s" and n: "n < length (pending s)"
    and r: "resume (pending s ! n) x (s\<lparr>pending := take n (pending s) @ drop (Suc n) (pending s)\<rparr>) = Some s'"
  shows "controller_inv s'"
proof -
  from inv have sf: "single_flight s" by (simp add: controller_inv_def)
  from inv_one_pending[OF sf n] obtain op where n0: "n = 0" and p: "pending s = [op]"
    and st: "state (appState s) = in_progress op" by blast
  define s0 where "s0 = s\<lparr>pending := []\<rparr>"
  have p0: "pending s0 = []" by (simp add: s0_def)
  have a0: "appState s0 = appState s" by (simp add: s0_def)
  from inv have b: "early (state (appState s)) \<longrightarrow> imageBlob (appState s) = None"
    by (simp add: controller_inv_def)
  from r n0 p have r0: "resume op x s0 = Some s'" by (simp add: s0_def)
  from resume_kind[OF r0] show ?thesis
  proof (elim disjE conjE exE)
    fix env assume k: "op = AdbConnect" "x = AdbConnectDone env"
    with st b a0 have "imageBlob (appState s0) = None" by simp
    with r0 k p0 show ?thesis by (auto simp: resume_simps intro!: connectAdb_connected_inv)
  next
    fix props assume k: "op = GetDeviceInfo" "x = GetDeviceInfoDone props"
    with st b a0 have "imageBlob (appState s0) = None" by simp
    with r0 k p0 show ?thesis by (auto simp: resume_simps intro!: connectAdb_detected_inv)
  next
    fix di net assume k: "op = FindMatchingRelease di" "x = FindMatchingReleaseDone net"
    with st b a0 have "imageBlob (appState s0) = None" by simp
    with r0 k p0 show ?thesis by (auto simp: resume_simps intro!: findRelease_end_inv)
  next
    fix asset net assume k: "op = DownloadAsset asset" "x = DownloadAssetDone net"
    with r0 p0 show ?thesis by (auto simp: resume_simps intro!: downloadImage_end_inv)
  next
    fix env assume k: "op = AdbRebootToBootloader" "x = AdbRebootToBootloaderDone env"
    with st a0 have "state (appState s0) = REBOOTING_BOOTLOADER" by simp
    with r0 k p0 show ?thesis by (auto simp: resume_simps intro!: rebootToBootloader_rebooted_inv)
  next
    fix env assume k: "op = AdbDisconnect" "x = AdbDisconnectDone env"
    with r0 p0 show ?thesis by (auto simp: resume_simps intro!: rebootToBootloader_disconnected_inv)
  next
    fix captured env assume k: "op = FastbootConnect captured" "x = FastbootConnectDone env"
    with st a0 have "state (appState s0) = FASTBOOT_CONNECTING" by simp
    with r0 k p0 show ?thesis by (auto simp: resume_simps intro!: connectFastboot_connected_inv)
  next
    fix captured dev assume k: "op = IsBootloaderUnlocked captured" "x = IsBootloaderUnlockedDone dev"
    with r0 p0 show ?thesis by (auto simp: resume_simps intro!: connectFastboot_checked_inv)
  next
    fix b ps env assume k: "op = FlashInitBoot b" "x = FlashInitBootDone ps env"
    with r0 p0 show ?thesis by (auto simp: resume_simps intro!: flashImage_end_inv)
  next
    fix env assume k: "op = FastbootReboot" "x = FastbootRebootDone env"
    with r0 p0 show ?thesis by (auto simp: resume_simps intro!: rebootSystem_end_inv)
  qed
qed

lemma step_inv:
  assumes "controller_inv s" "step s e = Some s'"
  shows "controller_inv s'"
proof (cases e)
  case (Click h)
  with assms(2) have "h \<in> set (onClick (state (appState s)))" "s' = run_handler h s"
    by (auto simp: step_def split: if_splits)
  with assms(1) show ?thesis by (simp add: click_inv)
next
  case (Settle n x)
  with assms(2) have "n < length (pending s)"
    "resume (pending s ! n) x (s\<lparr>pending := take n (pending s) @ drop (Suc n) (pending s)\<rparr>) = Some s'"
    by (auto simp: step_def split: if_splits)
  with assms(1) show ?thesis by (rule settle_inv)
qed

lemma initial_inv: "controller_inv (initial_system w)"
  by (simp add: controller_inv_def single_flight_def initial_system_def initialState_def)

lemma reachable_inv: "reachable s \<Longrightarrow> controller_inv s"
  by (induction rule: reachable.induct) (auto intro: initial_inv step_inv)

lemma run_reachable: "reachable s \<Longrightarrow> run s es = Some s' \<Longrightarrow> reachable s'"
proof (induction es arbitrary: s)
  case Nil
  then show ?case by simp
next
  case (Cons e es)
  then show ?case by (auto split: option.splits intro: reachable.reach_step)
qed

text \<open>
  Claim C1. In every state the controller can reach, at most one awaited call is outstanding,
  the state is the one that stands for that call (it was set before the call was made), and
  while the call is outstanding the only event that can happen is its settlement: no button
  is shown, so nothing else moves the machine out of that state.
\<close>

theorem single_flight_reachable:
  assumes "reachable s"
  shows "length (pending s) \<le> 1 \<and>
         (\<forall>op\<in>set (pending s). state (appState s) = in_progress op) \<and>
         (\<forall>e s'. pending s \<noteq> [] \<and> step s e = Some s' \<longrightarrow> (\<exists>x. e = Settle 0 x))"
proof -
  from reachable_inv[OF assms] have sf: "single_flight s"
    by (simp add: controller_inv_def)
  have "\<exists>x. e = Settle 0 x" if ne: "pending s \<noteq> []" and st: "step s e = Some s'" for e s'
  proof (cases e)
    case (Click h)
    with st have "h \<in> set (onClick (state (appState s)))"
      by (auto simp: step_def split: if_splits)
    from inv_no_pending_at_click[OF sf this] ne show ?thesis by simp
  next
    case (Settle n x)
    with st have "n < length (pending s)"
      by (auto simp: step_def split: if_splits)
    from inv_one_pending[OF sf this] Settle show ?thesis by blast
  qed
  with sf show ?thesis unfolding single_flight_def by blast
qed

theorem single_flight_reachable_witness:
  "reachable (connectAdb (initial_system True)) \<and>
   pending (connectAdb (initial_system True)) = [AdbConnect] \<and>
   state (appState (connectAdb (initial_system True))) = ADB_CONNECTING \<and>
   step (connectAdb (initial_system True)) (Click ConnectAdb) = None \<and>
   step (connectAdb (initial_system True)) (Click Reset) = None"
proof -
  let ?s = "connectAdb (initial_system True)"
  have "step (initial_system True) (Click ConnectAdb) = Some ?s"
    by (simp add: step_def initial_system_def initialState_def)
  from reachable.reach_step[OF reachable.reach_init this] have r: "reachable ?s" .
  have p: "pending ?s = [AdbConnect]"
    by (simp add: connectAdb_def checkBrowser_def prim_defs initial_system_def Let_def)
  from single_flight_reachable[OF r] p
  have st: "state (appState ?s) = in_progress AdbConnect"
    and only: "\<forall>e s'. pending ?s \<noteq> [] \<and> step ?s e = Some s' \<longrightarrow> (\<exists>x. e = Settle 0 x)"
    by simp_all
  have n: "step ?s (Click h) = None" for h
  proof (cases "step ?s (Click h)")
    case None
    then show ?thesis .
  next
    case (Some s')
    with only p have "\<exists>x. Click h = Settle 0 x" by (metis list.distinct(1))
    then show ?thesis by simp
  qed
  from r p st n show ?thesis by simp
qed

lemma run_append:
  "run s (es @ es') = (case run s es of None \<Rightarrow> None | Some s1 \<Rightarrow> run s1 es')"
  by (induction es arbitrary: s) (auto split: option.splits)

lemmas handler_defs =
  checkBrowser_def detectFirmware_begin_def detectFirmware_end_def findRelease_begin_def
  findRelease_end_def connectAdb_def connectAdb_connected_def connectAdb_detected_def
  downloadImage_def downloadImage_end_def confirmFlash_def
  rebootToBootloader_def rebootToBootloader_rebooted_def rebootToBootloader_disconnected_def
  rebootSystem_begin_def rebootSystem_end_def flashImage_begin_def
  flashImage_end_def connectFastboot_def connectFastboot_catch_def connectFastboot_connected_def
  connectFastboot_checked_def reset_def

lemma click_not_error:
  "state (appState s) \<noteq> ERROR \<Longrightarrow> state (appState (run_handler h s)) \<noteq> ERROR"
  by (cases h)
     (simp_all add: handler_defs prim_defs initialState_def Let_def split: option.splits)

lemma error_entry:
  "state (appState (connectAdb_connected r s)) = ERROR \<Longrightarrow>
     error (appState (connectAdb_connected r s)) \<noteq> None \<and>
     nothing_cleared (appState s) (appState (connectAdb_connected r s))"
  "state (appState (connectAdb_detected r1 s)) = ERROR \<Longrightarrow>
     error (appState (connectAdb_detected r1 s)) \<noteq> None \<and>
     nothing_cleared (appState s) (appState (connectAdb_detected r1 s))"
  "state (appState (findRelease_end di r2 s)) = ERROR \<Longrightarrow>
     error (appState (findRelease_end di r2 s)) \<noteq> None \<and>
     nothing_cleared (appState s) (appState (findRelease_end di r2 s))"
  "state (appState (downloadImage_end r3 evs s)) = ERROR \<Longrightarrow>
     error (appState (downloadImage_end r3 evs s)) \<noteq> None \<and>
     nothing_cleared (appState s) (appState (downloadImage_end r3 evs s))"
  "state (appState s) \<noteq> ERROR \<Longrightarrow> state (appState (rebootToBootloader_rebooted r s)) = ERROR \<Longrightarrow>
     error (appState (rebootToBootloader_rebooted r s)) \<noteq> None \<and>
     nothing_cleared (appState s) (appState (rebootToBootloader_rebooted r s))"
  "state (appState (rebootToBootloader_disconnected r s)) = ERROR \<Longrightarrow>
     error (appState (rebootToBootloader_disconnected r s)) \<noteq> None \<and>
     nothing_cleared (appState s) (appState (rebootToBootloader_disconnected r s))"
  "state (appState s) \<noteq> ERROR \<Longrightarrow> state (appState (connectFastboot_connected c r s)) = ERROR \<Longrightarrow>
     error (appState (connectFastboot_connected c r s)) \<noteq> None \<and>
     nothing_cleared (appState s) (appState (connectFastboot_connected c r s))"
  "state (appState (connectFastboot_checked c u s)) = ERROR \<Longrightarrow>
     error (appState (connectFastboot_checked c u s)) \<noteq> None \<and>
     nothing_cleared (appState s) (appState (connectFastboot_checked c u s))"
  "state (appState (flashImage_end r fevs s)) = ERROR \<Longrightarrow>
     error (appState (flashImage_end r fevs s)) \<noteq> None \<and>
     nothing_cleared (appState s) (appState (flashImage_end r fevs s))"
  "state (appState (rebootSystem_end r s)) \<noteq> ERROR"
  by (auto simp: handler_defs prim_defs nothing_cleared_def Let_def fold_onDownloadProgress
      fold_onFlashProgress split: sum.splits option.splits if_splits)


lemma settle_one:
  "pending s = [op] \<Longrightarrow> step s (Settle 0 x) = resume op x (s\<lparr>pending := []\<rparr>)"
  by (simp add: step_def)

lemma resume_shape:
  assumes "resume op x s0 = Some s'"
  shows "(\<exists>r t. appState t = appState s0 \<and> s' = connectAdb_connected r t) \<or>
         (\<exists>r t. appState t = appState s0 \<and> s' = connectAdb_detected r t) \<or>
         (\<exists>di r t. appState t = appState s0 \<and> s' = findRelease_end di r t) \<or>
         (\<exists>r evs t. appState t = appState s0 \<and> s' = downloadImage_end r evs t) \<or>
         (\<exists>r t. appState t = appState s0 \<and> s' = rebootToBootloader_rebooted r t) \<or>
         (\<exists>r t. appState t = appState s0 \<and> s' = rebootToBootloader_disconnected r t) \<or>
         (\<exists>c r t. appState t = appState s0 \<and> s' = connectFastboot_connected c r t) \<or>
         (\<exists>c u t. appState t = appState s0 \<and> s' = connectFastboot_checked c u t) \<or>
         (\<exists>r evs t. appState t = appState s0 \<and> s' = flashImage_end r evs t) \<or>
         (\<exists>r t. appState t = appState s0 \<and> s' = rebootSystem_end r t)"
  using resume_kind[OF assms] assms
proof (elim disjE conjE exE)
  fix env assume "op = AdbConnect" "x = AdbConnectDone env" "resume op x s0 = Some s'"
  then have "s' = connectAdb_connected (fst (adb_connect (webusb s0) env (adbService s0)))
                    (s0\<lparr>adbService := snd (adb_connect (webusb s0) env (adbService s0))\<rparr>)"
    by (simp add: resume_simps)
  then have "\<exists>r t. appState t = appState s0 \<and> s' = connectAdb_connected r t"
    by (intro exI[of _ "fst (adb_connect (webusb s0) env (adbService s0))"]
              exI[of _ "s0\<lparr>adbService := snd (adb_connect (webusb s0) env (adbService s0))\<rparr>"]) simp
  then show ?thesis by blast
next
  fix props assume "op = GetDeviceInfo" "x = GetDeviceInfoDone props" "resume op x s0 = Some s'"
  then have "s' = connectAdb_detected (getDeviceInfo props (adbService s0)) s0"
    by (simp add: resume_simps)
  then have "\<exists>r t. appState t = appState s0 \<and> s' = connectAdb_detected r t" by blast
  then show ?thesis by blast
next
  fix di net assume "op = FindMatchingRelease di" "x = FindMatchingReleaseDone net"
    "resume op x s0 = Some s'"
  then have "s' = findRelease_end di
                    (fst (findMatchingRelease net (githubService s0) (firmwareVersion di)))
                    (s0\<lparr>githubService := fst (snd (findMatchingRelease net (githubService s0) (firmwareVersion di))),
                       fetched := fetched s0 @ snd (snd (findMatchingRelease net (githubService s0) (firmwareVersion di)))\<rparr>)"
    by (simp add: resume_simps)
  then have "\<exists>di r t. appState t = appState s0 \<and> s' = findRelease_end di r t"
    by (intro exI[of _ di]
              exI[of _ "fst (findMatchingRelease net (githubService s0) (firmwareVersion di))"]
              exI[of _ "s0\<lparr>githubService := fst (snd (findMatchingRelease net (githubService s0) (firmwareVersion di))),
                       fetched := fetched s0 @ snd (snd (findMatchingRelease net (githubService s0) (firmwareVersion di)))\<rparr>"]) simp
  then show ?thesis by blast
next
  fix asset net assume "op = DownloadAsset asset" "x = DownloadAssetDone net"
    "resume op x s0 = Some s'"
  then have "s' = downloadImage_end (fst (downloadAsset net (browser_download_url asset)))
                    (fst (snd (downloadAsset net (browser_download_url asset))))
                    (s0\<lparr>fetched := fetched s0 @ snd (snd (downloadAsset net (browser_download_url asset)))\<rparr>)"
    by (simp add: resume_simps)
  then have "\<exists>r evs t. appState t = appState s0 \<and> s' = downloadImage_end r evs t"
    by (intro exI[of _ "fst (downloadAsset net (browser_download_url asset))"]
              exI[of _ "fst (snd (downloadAsset net (browser_download_url asset)))"]
              exI[of _ "s0\<lparr>fetched := fetched s0 @ snd (snd (downloadAsset net (browser_download_url asset)))\<rparr>"]) simp
  then show ?thesis by blast
next
  fix env assume "op = AdbRebootToBootloader" "x = AdbRebootToBootloaderDone env"
    "resume op x s0 = Some s'"
  then have "s' = rebootToBootloader_rebooted (adb_rebootToBootloader env (adbService s0)) s0"
    by (simp add: resume_simps)
  then have "\<exists>r t. appState t = appState s0 \<and> s' = rebootToBootloader_rebooted r t" by blast
  then show ?thesis by blast
next
  fix env assume "op = AdbDisconnect" "x = AdbDisconnectDone env" "resume op x s0 = Some s'"
  then have "s' = rebootToBootloader_disconnected (fst (adb_disconnect env (adbService s0)))
                    (s0\<lparr>adbService := snd (adb_disconnect env (adbService s0))\<rparr>)"
    by (simp add: resume_simps)
  then have "\<exists>r t. appState t = appState s0 \<and> s' = rebootToBootloader_disconnected r t"
    by (intro exI[of _ "fst (adb_disconnect env (adbService s0))"]
              exI[of _ "s0\<lparr>adbService := snd (adb_disconnect env (adbService s0))\<rparr>"]) simp
  then show ?thesis by blast
next
  fix captured env assume "op = FastbootConnect captured" "x = FastbootConnectDone env"
    "resume op x s0 = Some s'"
  then have "s' = connectFastboot_connected captured (fst (fastboot_connect env (fastbootService s0)))
                    (s0\<lparr>fastbootService := snd (fastboot_connect env (fastbootService s0))\<rparr>)"
    by (simp add: resume_simps)
  then have "\<exists>c r t. appState t = appState s0 \<and> s' = connectFastboot_connected c r t"
    by (intro exI[of _ captured] exI[of _ "fst (fastboot_connect env (fastbootService s0))"]
              exI[of _ "s0\<lparr>fastbootService := snd (fastboot_connect env (fastbootService s0))\<rparr>"]) simp
  then show ?thesis by blast
next
  fix captured dev assume "op = IsBootloaderUnlocked captured" "x = IsBootloaderUnlockedDone dev"
    "resume op x s0 = Some s'"
  then have "s' = connectFastboot_checked captured (isBootloaderUnlocked dev) s0"
    by (simp add: resume_simps)
  then have "\<exists>c u t. appState t = appState s0 \<and> s' = connectFastboot_checked c u t" by blast
  then show ?thesis by blast
next
  fix b ps env assume "op = FlashInitBoot b" "x = FlashInitBootDone ps env"
    "resume op x s0 = Some s'"
  then have "s' = flashImage_end (fst (flashInitBoot ps env b)) (snd (flashInitBoot ps env b)) s0"
    by (simp add: resume_simps)
  then have "\<exists>r evs t. appState t = appState s0 \<and> s' = flashImage_end r evs t" by blast
  then show ?thesis by blast
next
  fix env assume "op = FastbootReboot" "x = FastbootRebootDone env" "resume op x s0 = Some s'"
  then have "s' = rebootSystem_end (fastboot_reboot env) s0"
    by (simp add: resume_simps)
  then have "\<exists>r t. appState t = appState s0 \<and> s' = rebootSystem_end r t" by blast
  then show ?thesis by blast
qed

lemma step_into_error:
  assumes st: "step s e = Some s'" and ne: "state (appState s) \<noteq> ERROR"
    and er: "state (appState s') = ERROR"
  shows "error (appState s') \<noteq> None \<and> nothing_cleared (appState s) (appState s')"
proof (cases e)
  case (Click h)
  with st have "s' = run_handler h s" by (auto simp: step_def split: if_splits)
  with click_not_error[OF ne, of h] er show ?thesis by simp
next
  case (Settle n x)
  define s0 where "s0 = s\<lparr>pending := take n (pending s) @ drop (Suc n) (pending s)\<rparr>"
  have a0: "appState s0 = appState s" by (simp add: s0_def)
  from st Settle have r0: "resume (pending s ! n) x s0 = Some s'"
    by (auto simp: step_def s0_def split: if_splits)
  from resume_shape[OF r0] show ?thesis
  proof (elim disjE exE conjE)
    fix r t assume "appState t = appState s0" "s' = connectAdb_connected r t"
    with error_entry(1)[of r t] er a0 show ?thesis by simp
  next
    fix r t assume "appState t = appState s0" "s' = connectAdb_detected r t"
    with error_entry(2)[of r t] er a0 show ?thesis by simp
  next
    fix di r t assume "appState t = appState s0" "s' = findRelease_end di r t"
    with error_entry(3)[of di r t] er a0 show ?thesis by simp
  next
    fix r evs t assume "appState t = appState s0" "s' = downloadImage_end r evs t"
    with error_entry(4)[of r evs t] er a0 show ?thesis by simp
  next
    fix r t assume "appState t = appState s0" "s' = rebootToBootloader_rebooted r t"
    with error_entry(5)[of t r] er a0 ne show ?thesis by simp
  next
    fix r t assume "appState t = appState s0" "s' = rebootToBootloader_disconnected r t"
    with error_entry(6)[of r t] er a0 show ?thesis by simp
  next
    fix c r t assume "appState t = appState s0" "s' = connectFastboot_connected c r t"
    with error_entry(7)[of t c r] er a0 ne show ?thesis by simp
  next
    fix c u t assume "appState t = appState s0" "s' = connectFastboot_checked c u t"
    with error_entry(8)[of c u t] er a0 show ?thesis by simp
  next
    fix r evs t assume "appState t = appState s0" "s' = flashImage_end r evs t"
    with error_entry(9)[of r evs t] er a0 show ?thesis by simp
  next
    fix r t assume "appState t = appState s0" "s' = rebootSystem_end r t"
    with error_entry(10)[of r t] er show ?thesis by simp
  qed
qed

text \<open>
  Claim C4, as the code has it. A step that enters \<open>ERROR\<close> sets the error message and clears
  nothing: the device information, the matched release and the image are as before, and a
  progress record that was set is still set. When the download fails in a state the
  controller can reach, the machine ends in \<open>ERROR\<close> with the message of the failure, no
  image is held, and the progress record of the download is still there.
\<close>

theorem error_clears_nothing:
  "(step s e = Some s' \<and> state (appState s) \<noteq> ERROR \<and> state (appState s') = ERROR \<longrightarrow>
      error (appState s') \<noteq> None \<and> nothing_cleared (appState s) (appState s')) \<and>
   (reachable s \<and> pending s = [DownloadAsset asset] \<and>
    fst (downloadAsset net (browser_download_url asset)) = Inl err \<longrightarrow>
      (\<exists>s1. step s (Settle 0 (DownloadAssetDone net)) = Some s1 \<and>
         state (appState s1) = ERROR \<and>
         error (appState s1) = Some (''Download failed: '' @ messageOf err) \<and>
         imageBlob (appState s1) = None \<and>
         downloadProgress (appState s1) \<noteq> None))"
proof (rule conjI; rule impI)
  assume "step s e = Some s' \<and> state (appState s) \<noteq> ERROR \<and> state (appState s') = ERROR"
  then show "error (appState s') \<noteq> None \<and> nothing_cleared (appState s) (appState s')"
    using step_into_error by blast
next
  assume a: "reachable s \<and> pending s = [DownloadAsset asset] \<and>
    fst (downloadAsset net (browser_download_url asset)) = Inl err"
  then have inv: "controller_inv s" by (simp add: reachable_inv)
  from a inv have st: "state (appState s) = DOWNLOADING_IMAGE"
    by (simp add: controller_inv_def single_flight_def)
  with inv have b: "imageBlob (appState s) = None" and p: "downloadProgress (appState s) \<noteq> None"
    by (simp_all add: controller_inv_def)
  let ?s1 = "downloadImage_end (Inl err) (fst (snd (downloadAsset net (browser_download_url asset))))
               (s\<lparr>pending := [], fetched := fetched s @ snd (snd (downloadAsset net (browser_download_url asset)))\<rparr>)"
  from a have "step s (Settle 0 (DownloadAssetDone net)) = Some ?s1"
    by (simp add: settle_one resume_simps)
  moreover have "state (appState ?s1) = ERROR"
    "error (appState ?s1) = Some (''Download failed: '' @ messageOf err)"
    by (simp_all add: downloadImage_end_def prim_defs Let_def)
  moreover have "imageBlob (appState ?s1) = None" "downloadProgress (appState ?s1) \<noteq> None"
    using b p by (simp_all add: downloadImage_end_def prim_defs Let_def fold_onDownloadProgress)
  ultimately show "\<exists>s1. step s (Settle 0 (DownloadAssetDone net)) = Some s1 \<and>
         state (appState s1) = ERROR \<and>
         error (appState s1) = Some (''Download failed: '' @ messageOf err) \<and>
         imageBlob (appState s1) = None \<and>
         downloadProgress (appState s1) \<noteq> None"
    by blast
qed

lemmas demo_defs =
  to_release_matched_def failed_download_def demo_catalogue_def demo_release_def demo_asset_def

lemmas eval_defs =
  step_def resume_def initial_system_def initialState_def handler_defs prim_defs
  onDownloadProgress_def onFlashProgress_def
  adb_connect_def getDeviceInfo_def adb_rebootToBootloader_def adb_disconnect_def
  fastboot_connect_def getVariable_def isBootloaderUnlocked_def flashInitBoot_def fastboot_reboot_def
  fetchReleases_def findMatchingRelease_def getPatchedImageAsset_def clearCache_def
  downloadAsset_def CORS_PROXIES_def attempt_def downloadWithProgress_def isOnePlusOpen_def Let_def

lemma parse_demo:
  "parseVersion ''CPH2551_15.0.0.822(EX01)'' =
     Some \<lparr>modelCode = ''CPH2551'', version = ''15.0.0.822'', regionCode = ''EX01'',
            fullVersion = ''CPH2551_15.0.0.822(EX01)''\<rparr>"
  by code_simp

text \<open>
  Against claim C4 as stated: in the run \<open>failed_download\<close> the controller enters \<open>ERROR\<close> and the
  progress record of the failed download is still in the state.
\<close>

theorem error_keeps_download_progress:
  "map_option (state \<circ> appState) (run (initial_system True) failed_download) = Some ERROR \<and>
   map_option (downloadProgress \<circ> appState) (run (initial_system True) failed_download) =
     Some (Some \<lparr>loaded = 0, total_bytes = 50000000, percentage = 0\<rparr>)"
  by (simp add: demo_defs eval_defs parse_demo)

lemma run_to_downloading:
  "\<exists>s. run (initial_system True) (to_release_matched @ [Click DownloadImage]) = Some s \<and>
        pending s = [DownloadAsset demo_asset] \<and> state (appState s) = DOWNLOADING_IMAGE \<and>
        matchedRelease (appState s) = Some demo_release"
  by (simp add: demo_defs eval_defs parse_demo)

lemma offline_download:
  "fst (downloadAsset (\<lambda>i url. Inl (Error ''Failed to fetch'')) u) =
     Inl (Error ''Download failed: Failed to fetch'')"
  by (simp add: downloadAsset_def CORS_PROXIES_def attempt_def Let_def)

theorem error_clears_nothing_witness:
  "map_option (state \<circ> appState) (run (initial_system True) failed_download) = Some ERROR \<and>
   map_option (error \<circ> appState) (run (initial_system True) failed_download) =
     Some (Some ''Download failed: Download failed: Failed to fetch'') \<and>
   map_option (imageBlob \<circ> appState) (run (initial_system True) failed_download) = Some None \<and>
   map_option (downloadProgress \<circ> appState) (run (initial_system True) failed_download) \<noteq> Some None \<and>
   map_option (matchedRelease \<circ> appState) (run (initial_system True) failed_download) =
     Some (Some demo_release)"
proof -
  let ?x = "DownloadAssetDone (\<lambda>i url. Inl (Error ''Failed to fetch''))"
  from run_to_downloading obtain s where
    r: "run (initial_system True) (to_release_matched @ [Click DownloadImage]) = Some s"
    and p: "pending s = [DownloadAsset demo_asset]"
    and d: "state (appState s) = DOWNLOADING_IMAGE"
    and m: "matchedRelease (appState s) = Some demo_release" by blast
  from run_reachable[OF reachable.reach_init r] have re: "reachable s" .
  from error_clears_nothing
         [where s = s and asset = demo_asset and net = "\<lambda>i url. Inl (Error ''Failed to fetch'')"
            and err = "Error ''Download failed: Failed to fetch''", THEN conjunct2]
       re p offline_download
  obtain s1 where
    s1: "step s (Settle 0 ?x) = Some s1" "state (appState s1) = ERROR"
    "error (appState s1) = Some (''Download failed: '' @ messageOf (Error ''Download failed: Failed to fetch''))"
    "imageBlob (appState s1) = None" "downloadProgress (appState s1) \<noteq> None"
    by blast
  from error_clears_nothing [where s = s and e = "Settle 0 ?x" and s' = s1, THEN conjunct1] s1 d
  have "nothing_cleared (appState s) (appState s1)" by simp
  with m have k: "matchedRelease (appState s1) = Some demo_release"
    by (simp add: nothing_cleared_def)
  have "run (initial_system True) failed_download = run s [Settle 0 ?x]"
    using r run_append[of "initial_system True" "to_release_matched @ [Click DownloadImage]"
        "[Settle 0 ?x]"]
    by (simp add: failed_download_def)
  with s1 k show ?thesis by simp
qed

lemma githubService_kept:
  "githubService (connectAdb_connected r s) = githubService s"
  "githubService (connectAdb_detected r1 s) = githubService s"
  "githubService (findRelease_end di r2 s) = githubService s"
  "githubService (downloadImage_end r3 evs s) = githubService s"
  "githubService (rebootToBootloader_rebooted r s) = githubService s"
  "githubService (rebootToBootloader_disconnected r s) = githubService s"
  "githubService (connectFastboot_connected c r s) = githubService s"
  "githubService (connectFastboot_checked c u s) = githubService s"
  "githubService (flashImage_end r fevs s) = githubService s"
  "githubService (rebootSystem_end r s) = githubService s"
  "githubService (run_handler h s) = githubService s"
            apply (simp_all add: handler_defs prim_defs Let_def fold_onDownloadProgress
      fold_onFlashProgress split: sum.splits option.splits if_splits)
  apply (cases h; simp add: handler_defs prim_defs Let_def split: option.splits)
  done

lemma step_keeps_cache:
  assumes st: "step s e = Some s'" and c: "releasesCache (githubService s) = Some rs"
  shows "releasesCache (githubService s') = Some rs"
proof (cases e)
  case (Click h)
  with st have "s' = run_handler h s" by (auto simp: step_def split: if_splits)
  with c show ?thesis by (simp add: githubService_kept)
next
  case (Settle n x)
  define s0 where "s0 = s\<lparr>pending := take n (pending s) @ drop (Suc n) (pending s)\<rparr>"
  have g0: "githubService s0 = githubService s" by (simp add: s0_def)
  from st Settle have r0: "resume (pending s ! n) x s0 = Some s'"
    by (auto simp: step_def s0_def split: if_splits)
  have f: "fst (snd (findMatchingRelease net (githubService s) q)) = githubService s" for net q
    using c by (simp add: findMatchingRelease_def fetchReleases_cached)
  from resume_kind[OF r0] r0 have "githubService s' = githubService s"
    by (elim disjE conjE exE) (auto simp: resume_simps githubService_kept g0 f)
  with c show ?thesis by simp
qed

text \<open>
  Claim C5, as the code has it. A successful \<open>fetchReleases\<close> fills the cache; with the cache
  filled, every call returns the cached list, asks the network for nothing and leaves the
  service as it is, so the same holds for every later call; \<open>clearCache\<close> unsets the cache;
  and no event of the controller unsets it: \<open>reset\<close> leaves the catalogue service as it is.
\<close>

theorem releases_cache_survives_reset:
  "(fetchReleases net svc = (Inr rs, svc', rq) \<longrightarrow> releasesCache svc' = Some rs) \<and>
   (releasesCache svc = Some rs \<longrightarrow> (\<forall>net2. fetchReleases net2 svc = (Inr rs, svc, []))) \<and>
   releasesCache (clearCache svc) = None \<and>
   (step s e = Some s' \<and> releasesCache (githubService s) = Some rs \<longrightarrow>
      releasesCache (githubService s') = Some rs) \<and>
   githubService (reset s) = githubService s"
proof -
  have 1: "fetchReleases net svc = (Inr rs, svc', rq) \<longrightarrow> releasesCache svc' = Some rs"
    using fetchReleases_Inr by blast
  have 2: "releasesCache svc = Some rs \<longrightarrow> (\<forall>net2. fetchReleases net2 svc = (Inr rs, svc, []))"
    by (simp add: fetchReleases_cached)
  have 3: "releasesCache (clearCache svc) = None"
    by (simp add: clearCache_def)
  have 4: "step s e = Some s' \<and> releasesCache (githubService s) = Some rs \<longrightarrow>
      releasesCache (githubService s') = Some rs"
    using step_keeps_cache by blast
  have 5: "githubService (reset s) = githubService s"
    by (simp add: reset_def)
  from 1 2 3 4 5 show ?thesis by blast
qed

text \<open>
  Against claim C5 as stated: after the run \<open>failed_download\<close>, which fetched the catalogue,
  a click on \<open>Start Over\<close> resets the controller and the cache still holds the catalogue.
\<close>

theorem reset_keeps_releases_cache:
  "map_option (state \<circ> appState) (run (initial_system True) (failed_download @ [Click Reset])) =
     Some IDLE \<and>
   map_option (releasesCache \<circ> githubService)
     (run (initial_system True) (failed_download @ [Click Reset])) = Some (Some [demo_release])"
  by (simp add: demo_defs eval_defs parse_demo)

lemma run_failed_download:
  "\<exists>s. run (initial_system True) failed_download = Some s \<and>
        releasesCache (githubService s) = Some [demo_release] \<and> state (appState s) = ERROR"
  by (simp add: demo_defs eval_defs parse_demo)

theorem releases_cache_survives_reset_witness:
  "fetchReleases (\<lambda>url. Inr demo_catalogue) \<lparr>releasesCache = None\<rparr> =
     (Inr [demo_release], \<lparr>releasesCache = Some [demo_release]\<rparr>, [releases_url]) \<and>
   fetchReleases offline \<lparr>releasesCache = Some [demo_release]\<rparr> =
     (Inr [demo_release], \<lparr>releasesCache = Some [demo_release]\<rparr>, []) \<and>
   map_option (releasesCache \<circ> githubService)
     (run (initial_system True) (failed_download @ [Click Reset])) = Some (Some [demo_release])"
proof -
  have a: "fetchReleases (\<lambda>url. Inr demo_catalogue) \<lparr>releasesCache = None\<rparr> =
     (Inr [demo_release], \<lparr>releasesCache = Some [demo_release]\<rparr>, [releases_url])"
    by (simp add: fetchReleases_def demo_catalogue_def)
  have b: "fetchReleases offline \<lparr>releasesCache = Some [demo_release]\<rparr> =
     (Inr [demo_release], \<lparr>releasesCache = Some [demo_release]\<rparr>, [])"
    using releases_cache_survives_reset
            [where svc = "\<lparr>releasesCache = Some [demo_release]\<rparr>" and rs = "[demo_release]",
             THEN conjunct2, THEN conjunct1]
    by simp
  from run_failed_download obtain s where
    r: "run (initial_system True) failed_download = Some s"
    and c: "releasesCache (githubService s) = Some [demo_release]"
    and e: "state (appState s) = ERROR" by blast
  have st: "step s (Click Reset) = Some (reset s)"
    using e by (simp add: step_def)
  from releases_cache_survives_reset
         [where s = s and e = "Click Reset" and s' = "reset s" and rs = "[demo_release]",
          THEN conjunct2, THEN conjunct2, THEN conjunct2, THEN conjunct1] st c
  have "releasesCache (githubService (reset s)) = Some [demo_release]" by simp
  moreover have "run (initial_system True) (failed_download @ [Click Reset]) = Some (reset s)"
    using r st by (simp add: run_append)
  ultimately show ?thesis using a b by simp
qed

lemma error_only_reset:
  assumes "state (appState s) = ERROR" "pending s = []" "step s e = Some s'"
  shows "e = Click Reset"
proof (cases e)
  case (Click h)
  with assms show ?thesis by (cases h) (auto simp: step_def split: if_splits)
next
  case (Settle n x)
  with assms show ?thesis by (simp add: step_def)
qed

text \<open>
  Claim C6. \<open>isBootloaderUnlocked\<close> is true exactly when the read of the variable \<open>unlocked\<close>
  returns the string \<open>yes\<close>; a read that fails or returns \<open>null\<close> or another string gives
  false. When it is false at the check of the fastboot connection, the controller enters
  \<open>ERROR\<close> with the locked-bootloader message, starts no call (so no flash), and the only
  event possible from there is the reset.
\<close>

theorem locked_bootloader_never_flashes:
  "isBootloaderUnlocked dev = (dev ''unlocked'' = Inr (Some ''yes'')) \<and>
   (pending s = [IsBootloaderUnlocked captured] \<and> \<not> isBootloaderUnlocked dev \<longrightarrow>
      (\<exists>s1. step s (Settle 0 (IsBootloaderUnlockedDone dev)) = Some s1 \<and>
         state (appState s1) = ERROR \<and>
         error (appState s1) =
           Some ''Bootloader is locked. Please unlock it first before flashing.'' \<and>
         pending s1 = [] \<and>
         (\<forall>e s2. step s1 e = Some s2 \<longrightarrow> e = Click Reset)))"
proof (rule conjI)
  show "isBootloaderUnlocked dev = (dev ''unlocked'' = Inr (Some ''yes''))"
    by (cases "dev ''unlocked''") (simp_all add: isBootloaderUnlocked_def getVariable_def)
next
  show "pending s = [IsBootloaderUnlocked captured] \<and> \<not> isBootloaderUnlocked dev \<longrightarrow>
      (\<exists>s1. step s (Settle 0 (IsBootloaderUnlockedDone dev)) = Some s1 \<and>
         state (appState s1) = ERROR \<and>
         error (appState s1) =
           Some ''Bootloader is locked. Please unlock it first before flashing.'' \<and>
         pending s1 = [] \<and>
         (\<forall>e s2. step s1 e = Some s2 \<longrightarrow> e = Click Reset))"
  proof (rule impI)
    assume a: "pending s = [IsBootloaderUnlocked captured] \<and> \<not> isBootloaderUnlocked dev"
    let ?s1 = "setError ''Bootloader is locked. Please unlock it first before flashing.''
                 (s\<lparr>pending := []\<rparr>)"
    from a have 1: "step s (Settle 0 (IsBootloaderUnlockedDone dev)) = Some ?s1"
      by (simp add: settle_one resume_simps connectFastboot_checked_def)
    have 2: "state (appState ?s1) = ERROR"
      "error (appState ?s1) = Some ''Bootloader is locked. Please unlock it first before flashing.''"
      "pending ?s1 = []"
      by (simp_all add: prim_defs Let_def)
    from 2 have 3: "\<forall>e s2. step ?s1 e = Some s2 \<longrightarrow> e = Click Reset"
      using error_only_reset by blast
    from 1 2 3 show "\<exists>s1. step s (Settle 0 (IsBootloaderUnlockedDone dev)) = Some s1 \<and>
         state (appState s1) = ERROR \<and>
         error (appState s1) =
           Some ''Bootloader is locked. Please unlock it first before flashing.'' \<and>
         pending s1 = [] \<and>
         (\<forall>e s2. step s1 e = Some s2 \<longrightarrow> e = Click Reset)"
      by blast
  qed
qed

lemma run_to_unlock_check:
  "\<exists>s. run (initial_system True) to_unlock_check = Some s \<and>
        pending s = [IsBootloaderUnlocked (Some [1, 2, 3])]"
  by (simp add: to_unlock_check_def demo_defs eval_defs parse_demo image_response_def)

theorem locked_bootloader_never_flashes_witness:
  "\<not> isBootloaderUnlocked (\<lambda>name. Inr (Some ''no'')) \<and>
   \<not> isBootloaderUnlocked (\<lambda>name. Inl (Error ''timeout'')) \<and>
   isBootloaderUnlocked (\<lambda>name. if name = ''unlocked'' then Inr (Some ''yes'') else Inr None) \<and>
   map_option (state \<circ> appState)
     (run (initial_system True)
        (to_unlock_check @ [Settle 0 (IsBootloaderUnlockedDone (\<lambda>name. Inr (Some ''no'')))])) =
     Some ERROR \<and>
   map_option pending
     (run (initial_system True)
        (to_unlock_check @ [Settle 0 (IsBootloaderUnlockedDone (\<lambda>name. Inr (Some ''no'')))])) =
     Some [] \<and>
   run (initial_system True)
     (to_unlock_check @ [Settle 0 (IsBootloaderUnlockedDone (\<lambda>name. Inr (Some ''no''))),
                         Settle 0 (FlashInitBootDone [] (Inr ()))]) = None"
proof -
  let ?no = "\<lambda>name::string. Inr (Some ''no'') :: thrown + string option"
  have n: "\<not> isBootloaderUnlocked ?no"
    using locked_bootloader_never_flashes [of ?no, THEN conjunct1] by simp
  have t: "\<not> isBootloaderUnlocked (\<lambda>name. Inl (Error ''timeout''))"
    using locked_bootloader_never_flashes [of "\<lambda>name. Inl (Error ''timeout'')", THEN conjunct1]
    by simp
  have y: "isBootloaderUnlocked (\<lambda>name. if name = ''unlocked'' then Inr (Some ''yes'') else Inr None)"
    using locked_bootloader_never_flashes
            [of "\<lambda>name. if name = ''unlocked'' then Inr (Some ''yes'') else Inr None", THEN conjunct1]
    by simp
  from run_to_unlock_check obtain s where
    r: "run (initial_system True) to_unlock_check = Some s"
    and p: "pending s = [IsBootloaderUnlocked (Some [1, 2, 3])]" by blast
  from locked_bootloader_never_flashes [of ?no s "Some [1, 2, 3]", THEN conjunct2] p n
  obtain s1 where
    s1: "step s (Settle 0 (IsBootloaderUnlockedDone ?no)) = Some s1"
    "state (appState s1) = ERROR" "pending s1 = []"
    and only: "\<forall>e s2. step s1 e = Some s2 \<longrightarrow> e = Click Reset"
    by blast
  have f: "step s1 (Settle 0 (FlashInitBootDone [] (Inr ()))) = None"
  proof (cases "step s1 (Settle 0 (FlashInitBootDone [] (Inr ())))")
    case None
    then show ?thesis .
  next
    case (Some s2)
    with only have "Settle 0 (FlashInitBootDone [] (Inr ())) = Click Reset" by blast
    then show ?thesis by simp
  qed
  from r s1 f n t y show ?thesis by (simp add: run_append)
qed

lemma thrown_of_Some: "thrown_of r = Some e \<longleftrightarrow> r = Inl e"
  by (cases r) (simp_all add: thrown_of_def)

lemma rejection_simps:
  "rejection s AdbConnect (AdbConnectDone env) =
     thrown_of (fst (adb_connect (webusb s) env (adbService s)))"
  "rejection s GetDeviceInfo (GetDeviceInfoDone props) = thrown_of (getDeviceInfo props (adbService s))"
  "rejection s (FindMatchingRelease di) (FindMatchingReleaseDone net) =
     thrown_of (fst (findMatchingRelease net (githubService s) (firmwareVersion di)))"
  "rejection s (DownloadAsset asset) (DownloadAssetDone dnet) =
     thrown_of (fst (downloadAsset dnet (browser_download_url asset)))"
  "rejection s AdbRebootToBootloader (AdbRebootToBootloaderDone uenv) =
     thrown_of (adb_rebootToBootloader uenv (adbService s))"
  "rejection s AdbDisconnect (AdbDisconnectDone uenv) =
     thrown_of (fst (adb_disconnect uenv (adbService s)))"
  "rejection s (FastbootConnect captured) (FastbootConnectDone benv) =
     thrown_of (fst (fastboot_connect benv (fastbootService s)))"
  "rejection s (IsBootloaderUnlocked captured) (IsBootloaderUnlockedDone dev) = None"
  "rejection s (FlashInitBoot b) (FlashInitBootDone ps uenv) = thrown_of (fst (flashInitBoot ps uenv b))"
  "rejection s FastbootReboot (FastbootRebootDone uenv) = thrown_of (fastboot_reboot uenv)"
  by (simp_all add: rejection_def)

text \<open>The code after each \<open>await\<close> when the call rejected with \<open>e\<close>.\<close>

lemma rejected_fields:
  "state (appState (connectAdb_connected (Inl e) s)) =
     (if str_includes (messageOf e) ''No device selected'' then WAITING_ADB_CONNECT else ERROR)"
  "error (appState (connectAdb_connected (Inl e) s)) =
     (if str_includes (messageOf e) ''No device selected'' then error (appState s)
      else Some (''ADB connection failed: '' @ messageOf e))"
  "logs (appState (connectAdb_connected (Inl e) s)) =
     logs (appState s) @
     [if str_includes (messageOf e) ''No device selected'' then ''Device selection cancelled''
      else ''Error: '' @ ''ADB connection failed: '' @ messageOf e]"
  "pending (connectAdb_connected (Inl e) s) = pending s"
  "state (appState (connectAdb_detected (Inl e) s)) = ERROR"
  "error (appState (connectAdb_detected (Inl e) s)) = Some (''Failed to read device info: '' @ messageOf e)"
  "logs (appState (connectAdb_detected (Inl e) s)) = logs (appState s) @ [''Error: '' @ ''Failed to read device info: '' @ messageOf e]"
  "pending (connectAdb_detected (Inl e) s) = pending s"
  "state (appState (findRelease_end di (Inl e) s)) = ERROR"
  "error (appState (findRelease_end di (Inl e) s)) = Some (''Failed to fetch releases: '' @ messageOf e)"
  "logs (appState (findRelease_end di (Inl e) s)) = logs (appState s) @ [''Error: '' @ ''Failed to fetch releases: '' @ messageOf e]"
  "pending (findRelease_end di (Inl e) s) = pending s"
  "state (appState (downloadImage_end (Inl e) evs s)) = ERROR"
  "error (appState (downloadImage_end (Inl e) evs s)) = Some (''Download failed: '' @ messageOf e)"
  "logs (appState (downloadImage_end (Inl e) evs s)) = logs (appState s) @ [''Error: '' @ ''Download failed: '' @ messageOf e]"
  "pending (downloadImage_end (Inl e) evs s) = pending s"
  "state (appState (rebootToBootloader_rebooted (Inl e) s)) = ERROR"
  "error (appState (rebootToBootloader_rebooted (Inl e) s)) = Some (''Failed to reboot: '' @ messageOf e)"
  "logs (appState (rebootToBootloader_rebooted (Inl e) s)) = logs (appState s) @ [''Error: '' @ ''Failed to reboot: '' @ messageOf e]"
  "pending (rebootToBootloader_rebooted (Inl e) s) = pending s"
  "state (appState (rebootToBootloader_disconnected (Inl e) s)) = ERROR"
  "error (appState (rebootToBootloader_disconnected (Inl e) s)) = Some (''Failed to reboot: '' @ messageOf e)"
  "logs (appState (rebootToBootloader_disconnected (Inl e) s)) = logs (appState s) @ [''Error: '' @ ''Failed to reboot: '' @ messageOf e]"
  "pending (rebootToBootloader_disconnected (Inl e) s) = pending s"
  "state (appState (connectFastboot_connected c (Inl e) s)) =
     (if str_includes (messageOf e) ''No device selected'' \<or> str_includes (messageOf e) ''cancelled'' then WAITING_FASTBOOT else ERROR)"
  "error (appState (connectFastboot_connected c (Inl e) s)) =
     (if str_includes (messageOf e) ''No device selected'' \<or> str_includes (messageOf e) ''cancelled'' then error (appState s)
      else Some (''Fastboot connection failed: '' @ messageOf e))"
  "logs (appState (connectFastboot_connected c (Inl e) s)) =
     logs (appState s) @
     [if str_includes (messageOf e) ''No device selected'' \<or> str_includes (messageOf e) ''cancelled'' then ''Device selection cancelled''
      else ''Error: '' @ ''Fastboot connection failed: '' @ messageOf e]"
  "pending (connectFastboot_connected c (Inl e) s) = pending s"
  "state (appState (flashImage_end (Inl e) fevs s)) = ERROR"
  "error (appState (flashImage_end (Inl e) fevs s)) = Some (''Flash failed: '' @ messageOf e)"
  "logs (appState (flashImage_end (Inl e) fevs s)) = logs (appState s) @ [''Error: '' @ ''Flash failed: '' @ messageOf e]"
  "pending (flashImage_end (Inl e) fevs s) = pending s"
  by (simp_all add: handler_defs prim_defs Let_def fold_onDownloadProgress fold_onFlashProgress)

lemma rejected_step_effect:
  assumes p: "pending s = [op]" and rj: "rejection s op x = Some e"
    and st: "step s (Settle 0 x) = Some s'" and nr: "op \<noteq> FastbootReboot"
  shows "(if dismissed op (messageOf e)
          then state (appState s') = waiting_state op \<and>
               error (appState s') = error (appState s) \<and>
               logs (appState s') = logs (appState s) @ [''Device selection cancelled'']
          else state (appState s') = ERROR \<and>
               error (appState s') = Some (error_prefix op @ messageOf e) \<and>
               logs (appState s') = logs (appState s) @ [''Error: '' @ error_prefix op @ messageOf e]) \<and>
         pending s' = []"
proof -
  define s0 where "s0 = s\<lparr>pending := []\<rparr>"
  from st p have r0: "resume op x s0 = Some s'" by (simp add: settle_one s0_def)
  from resume_kind[OF r0] nr show ?thesis
  proof (elim disjE conjE exE)
    fix env assume k: "op = AdbConnect" "x = AdbConnectDone env"
    with rj have "fst (adb_connect (webusb s) env (adbService s)) = Inl e"
      by (simp add: rejection_simps thrown_of_Some)
    with r0 k show ?thesis
      by (auto simp: resume_simps rejected_fields s0_def)
  next
    fix props assume k: "op = GetDeviceInfo" "x = GetDeviceInfoDone props"
    with rj have "getDeviceInfo props (adbService s) = Inl e"
      by (simp add: rejection_simps thrown_of_Some)
    with r0 k show ?thesis
      by (auto simp: resume_simps rejected_fields s0_def)
  next
    fix di net assume k: "op = FindMatchingRelease di" "x = FindMatchingReleaseDone net"
    with rj have "fst (findMatchingRelease net (githubService s) (firmwareVersion di)) = Inl e"
      by (simp add: rejection_simps thrown_of_Some)
    with r0 k show ?thesis
      by (auto simp: resume_simps rejected_fields s0_def)
  next
    fix asset net assume k: "op = DownloadAsset asset" "x = DownloadAssetDone net"
    with rj have "fst (downloadAsset net (browser_download_url asset)) = Inl e"
      by (simp add: rejection_simps thrown_of_Some)
    with r0 k show ?thesis
      by (auto simp: resume_simps rejected_fields s0_def)
  next
    fix env assume k: "op = AdbRebootToBootloader" "x = AdbRebootToBootloaderDone env"
    with rj have "adb_rebootToBootloader env (adbService s) = Inl e"
      by (simp add: rejection_simps thrown_of_Some)
    with r0 k show ?thesis
      by (auto simp: resume_simps rejected_fields s0_def)
  next
    fix env assume k: "op = AdbDisconnect" "x = AdbDisconnectDone env"
    with rj have "fst (adb_disconnect env (adbService s)) = Inl e"
      by (simp add: rejection_simps thrown_of_Some)
    with r0 k show ?thesis
      by (auto simp: resume_simps rejected_fields s0_def)
  next
    fix captured env assume k: "op = FastbootConnect captured" "x = FastbootConnectDone env"
    with rj have "fst (fastboot_connect env (fastbootService s)) = Inl e"
      by (simp add: rejection_simps thrown_of_Some)
    with r0 k show ?thesis
      by (auto simp: resume_simps rejected_fields s0_def)
  next
    fix b ps env assume k: "op = FlashInitBoot b" "x = FlashInitBootDone ps env"
    with rj have "fst (flashInitBoot ps env b) = Inl e"
      by (simp add: rejection_simps thrown_of_Some)
    with r0 k show ?thesis
      by (auto simp: resume_simps rejected_fields s0_def)
  next
    fix captured dev assume k: "op = IsBootloaderUnlocked captured" "x = IsBootloaderUnlockedDone dev"
    with rj show ?thesis by (simp add: rejection_simps)
  next
    assume "op = FastbootReboot" "op \<noteq> FastbootReboot"
    then show ?thesis by simp
  qed
qed

lemma failed_read_effect:
  assumes p: "pending s = [IsBootloaderUnlocked c]" and f: "isl (dev ''unlocked'')"
    and st: "step s (Settle 0 (IsBootloaderUnlockedDone dev)) = Some s'"
  shows "state (appState s') = ERROR \<and>
         error (appState s') = Some ''Bootloader is locked. Please unlock it first before flashing.'' \<and>
         pending s' = []"
proof -
  from f have "\<not> isBootloaderUnlocked dev"
    by (cases "dev ''unlocked''") (simp_all add: isBootloaderUnlocked_def getVariable_def)
  with p st have "s' = setError ''Bootloader is locked. Please unlock it first before flashing.''
                         (s\<lparr>pending := []\<rparr>)"
    by (simp add: settle_one resume_simps connectFastboot_checked_def)
  then show ?thesis by (simp add: prim_defs Let_def)
qed

text \<open>
  Against claim C7 as stated: in the run \<open>cancelled_transfer\<close> the connection in fastboot mode
  rejects with \<open>The transfer was cancelled.\<close>; the controller goes back to the waiting state
  and records no error. The rejected reboot is not the only failure that is kept out of
  \<open>ERROR\<close>.
\<close>

theorem cancelled_connection_is_dropped:
  "map_option (state \<circ> appState) (run (initial_system True) cancelled_transfer) =
     Some WAITING_FASTBOOT \<and>
   map_option (error \<circ> appState) (run (initial_system True) cancelled_transfer) = Some None \<and>
   map_option (last \<circ> logs \<circ> appState) (run (initial_system True) cancelled_transfer) =
     Some ''Device selection cancelled''"
  by (simp add: cancelled_transfer_def to_fastboot_connecting_def demo_defs eval_defs parse_demo
      image_response_def)

text \<open>
  Claim C7, as the code has it. When the reboot to the system is the outstanding call and
  it rejects, the controller logs \<open>Reboot command sent\<close> and enters \<open>SUCCESS\<close>, with the error
  field as it was. When any other outstanding call rejects with \<open>e\<close>, one of two things
  happens. If the call is a connection and the message of \<open>e\<close> has the text of a dismissed
  device prompt (\<open>dismissed\<close>), the controller goes back to the waiting state, leaves the
  error field as it was and logs \<open>Device selection cancelled\<close>. Otherwise it enters \<open>ERROR\<close>,
  sets the error field to the text of the step followed by the message of \<open>e\<close>, and logs
  it. A failed read of the bootloader variable, which the service turns into \<open>null\<close>, ends in
  \<open>ERROR\<close> with the locked-bootloader message.
\<close>

theorem reboot_rejection_is_success:
  "(pending s = [FastbootReboot] \<longrightarrow>
      (\<exists>s1. step s (Settle 0 (FastbootRebootDone (Inl err))) = Some s1 \<and>
         state (appState s1) = SUCCESS \<and>
         error (appState s1) = error (appState s) \<and>
         logs (appState s1) = logs (appState s) @ [''Reboot command sent''] \<and>
         pending s1 = [])) \<and>
   (pending s = [op] \<and> op \<noteq> FastbootReboot \<and> rejection s op x = Some e \<and>
    step s (Settle 0 x) = Some s' \<longrightarrow>
      (if dismissed op (messageOf e)
       then state (appState s') = waiting_state op \<and>
            error (appState s') = error (appState s) \<and>
            logs (appState s') = logs (appState s) @ [''Device selection cancelled'']
       else state (appState s') = ERROR \<and>
            error (appState s') = Some (error_prefix op @ messageOf e) \<and>
            logs (appState s') = logs (appState s) @ [''Error: '' @ error_prefix op @ messageOf e]) \<and>
      pending s' = []) \<and>
   (pending s = [IsBootloaderUnlocked captured] \<and> isl (dev ''unlocked'') \<and>
    step s (Settle 0 (IsBootloaderUnlockedDone dev)) = Some s' \<longrightarrow>
      state (appState s') = ERROR \<and>
      error (appState s') = Some ''Bootloader is locked. Please unlock it first before flashing.'' \<and>
      pending s' = [])"
proof (intro conjI)
  show "pending s = [FastbootReboot] \<longrightarrow>
      (\<exists>s1. step s (Settle 0 (FastbootRebootDone (Inl err))) = Some s1 \<and>
         state (appState s1) = SUCCESS \<and>
         error (appState s1) = error (appState s) \<and>
         logs (appState s1) = logs (appState s) @ [''Reboot command sent''] \<and>
         pending s1 = [])"
  proof (rule impI)
    assume a: "pending s = [FastbootReboot]"
    let ?s1 = "rebootSystem_end (Inl err) (s\<lparr>pending := []\<rparr>)"
    from a have "step s (Settle 0 (FastbootRebootDone (Inl err))) = Some ?s1"
      by (simp add: settle_one resume_simps fastboot_reboot_def)
    moreover have "state (appState ?s1) = SUCCESS" "error (appState ?s1) = error (appState s)"
      "logs (appState ?s1) = logs (appState s) @ [''Reboot command sent'']" "pending ?s1 = []"
      by (simp_all add: rebootSystem_end_def prim_defs Let_def)
    ultimately show "\<exists>s1. step s (Settle 0 (FastbootRebootDone (Inl err))) = Some s1 \<and>
         state (appState s1) = SUCCESS \<and>
         error (appState s1) = error (appState s) \<and>
         logs (appState s1) = logs (appState s) @ [''Reboot command sent''] \<and>
         pending s1 = []"
      by blast
  qed
next
  show "pending s = [op] \<and> op \<noteq> FastbootReboot \<and> rejection s op x = Some e \<and>
    step s (Settle 0 x) = Some s' \<longrightarrow>
      (if dismissed op (messageOf e)
       then state (appState s') = waiting_state op \<and>
            error (appState s') = error (appState s) \<and>
            logs (appState s') = logs (appState s) @ [''Device selection cancelled'']
       else state (appState s') = ERROR \<and>
            error (appState s') = Some (error_prefix op @ messageOf e) \<and>
            logs (appState s') = logs (appState s) @ [''Error: '' @ error_prefix op @ messageOf e]) \<and>
      pending s' = []"
    using rejected_step_effect by blast
next
  show "pending s = [IsBootloaderUnlocked captured] \<and> isl (dev ''unlocked'') \<and>
    step s (Settle 0 (IsBootloaderUnlockedDone dev)) = Some s' \<longrightarrow>
      state (appState s') = ERROR \<and>
      error (appState s') = Some ''Bootloader is locked. Please unlock it first before flashing.'' \<and>
      pending s' = []"
    using failed_read_effect by blast
qed

lemma run_to_reboot:
  "\<exists>s. run (initial_system True) to_reboot = Some s \<and> pending s = [FastbootReboot] \<and>
        error (appState s) = None"
  by (simp add: to_reboot_def to_unlock_check_def demo_defs eval_defs parse_demo image_response_def
      fold_onFlashProgress)

lemma run_to_flashing:
  "\<exists>s. run (initial_system True) (butlast to_reboot) = Some s \<and> pending s = [FlashInitBoot [1, 2, 3]]"
  by (simp add: to_reboot_def to_unlock_check_def demo_defs eval_defs parse_demo image_response_def)

lemma run_to_fastboot_connecting:
  "\<exists>s. run (initial_system True) to_fastboot_connecting = Some s \<and>
        pending s = [FastbootConnect (Some [1, 2, 3])] \<and> error (appState s) = None"
  by (simp add: to_fastboot_connecting_def demo_defs eval_defs parse_demo image_response_def)

theorem reboot_rejection_is_success_witness:
  "map_option (state \<circ> appState)
     (run (initial_system True)
        (to_reboot @ [Settle 0 (FastbootRebootDone (Inl (Error ''Device disconnected'')))]))
     = Some SUCCESS \<and>
   map_option (error \<circ> appState)
     (run (initial_system True)
        (to_reboot @ [Settle 0 (FastbootRebootDone (Inl (Error ''Device disconnected'')))]))
     = Some None \<and>
   map_option (state \<circ> appState)
     (run (initial_system True)
        (butlast to_reboot @ [Settle 0 (FlashInitBootDone [] (Inl (Error ''Device disconnected'')))]))
     = Some ERROR \<and>
   map_option (error \<circ> appState)
     (run (initial_system True)
        (butlast to_reboot @ [Settle 0 (FlashInitBootDone [] (Inl (Error ''Device disconnected'')))]))
     = Some (Some ''Flash failed: Device disconnected'') \<and>
   map_option (state \<circ> appState) (run (initial_system True) cancelled_transfer) =
     Some WAITING_FASTBOOT \<and>
   map_option (error \<circ> appState) (run (initial_system True) cancelled_transfer) = Some None \<and>
   map_option (state \<circ> appState)
     (run (initial_system True)
        (to_unlock_check @ [Settle 0 (IsBootloaderUnlockedDone (\<lambda>name. Inl (Error ''timeout'')))]))
     = Some ERROR"
proof -
  from run_to_reboot obtain s where
    r: "run (initial_system True) to_reboot = Some s" and p: "pending s = [FastbootReboot]"
    and e: "error (appState s) = None" by blast
  from reboot_rejection_is_success
         [where s = s and err = "Error ''Device disconnected''", THEN conjunct1] p
  obtain s1 where
    "step s (Settle 0 (FastbootRebootDone (Inl (Error ''Device disconnected'')))) = Some s1"
    "state (appState s1) = SUCCESS" "error (appState s1) = error (appState s)"
    by blast
  with r e have A: "map_option (state \<circ> appState)
     (run (initial_system True)
        (to_reboot @ [Settle 0 (FastbootRebootDone (Inl (Error ''Device disconnected'')))]))
     = Some SUCCESS" "map_option (error \<circ> appState)
     (run (initial_system True)
        (to_reboot @ [Settle 0 (FastbootRebootDone (Inl (Error ''Device disconnected'')))]))
     = Some None"
    by (simp_all add: run_append)
  from run_to_flashing obtain t where
    rt: "run (initial_system True) (butlast to_reboot) = Some t"
    and pt: "pending t = [FlashInitBoot [1, 2, 3]]" by blast
  let ?x = "FlashInitBootDone [] (Inl (Error ''Device disconnected''))"
  have rj: "rejection t (FlashInitBoot [1, 2, 3]) ?x = Some (Error ''Device disconnected'')"
    by (simp add: rejection_simps flashInitBoot_def thrown_of_def)
  have "\<exists>t'. step t (Settle 0 ?x) = Some t'"
    using pt by (simp add: settle_one resume_simps)
  then obtain t' where st: "step t (Settle 0 ?x) = Some t'" by blast
  from reboot_rejection_is_success
         [where s = t and op = "FlashInitBoot [1, 2, 3]" and x = ?x and s' = t'
            and e = "Error ''Device disconnected''", THEN conjunct2, THEN conjunct1]
       pt rj st
  have "state (appState t') = ERROR" "error (appState t') = Some ''Flash failed: Device disconnected''"
    by simp_all
  with rt st have B: "map_option (state \<circ> appState)
     (run (initial_system True) (butlast to_reboot @ [Settle 0 ?x])) = Some ERROR"
    "map_option (error \<circ> appState)
     (run (initial_system True) (butlast to_reboot @ [Settle 0 ?x])) =
       Some (Some ''Flash failed: Device disconnected'')"
    by (simp_all add: run_append)
  from run_to_fastboot_connecting obtain v where
    rv: "run (initial_system True) to_fastboot_connecting = Some v"
    and pv: "pending v = [FastbootConnect (Some [1, 2, 3])]"
    and ev: "error (appState v) = None" by blast
  let ?y = "FastbootConnectDone (Inl (Error ''The transfer was cancelled.''))"
  have rjv: "rejection v (FastbootConnect (Some [1, 2, 3])) ?y = Some (Error ''The transfer was cancelled.'')"
    by (simp add: rejection_simps fastboot_connect_def thrown_of_def)
  have "\<exists>v'. step v (Settle 0 ?y) = Some v'"
    using pv by (simp add: settle_one resume_simps)
  then obtain v' where sv: "step v (Settle 0 ?y) = Some v'" by blast
  from reboot_rejection_is_success
         [where s = v and op = "FastbootConnect (Some [1, 2, 3])" and x = ?y and s' = v'
            and e = "Error ''The transfer was cancelled.''", THEN conjunct2, THEN conjunct1]
       pv rjv sv
  have "state (appState v') = WAITING_FASTBOOT" "error (appState v') = error (appState v)"
    by simp_all
  with rv sv ev have D: "map_option (state \<circ> appState) (run (initial_system True) cancelled_transfer) =
     Some WAITING_FASTBOOT"
    "map_option (error \<circ> appState) (run (initial_system True) cancelled_transfer) = Some None"
    by (simp_all add: cancelled_transfer_def run_append)
  from run_to_unlock_check obtain u where
    ru: "run (initial_system True) to_unlock_check = Some u"
    and pu: "pending u = [IsBootloaderUnlocked (Some [1, 2, 3])]" by blast
  let ?dev = "\<lambda>name::string. Inl (Error ''timeout'') :: thrown + string option"
  have "\<exists>u'. step u (Settle 0 (IsBootloaderUnlockedDone ?dev)) = Some u'"
    using pu by (simp add: settle_one resume_simps)
  then obtain u' where su: "step u (Settle 0 (IsBootloaderUnlockedDone ?dev)) = Some u'" by blast
  from reboot_rejection_is_success
         [where s = u and captured = "Some [1, 2, 3]" and dev = ?dev and s' = u',
          THEN conjunct2, THEN conjunct2]
       pu su
  have "state (appState u') = ERROR" by simp
  with ru su have C: "map_option (state \<circ> appState)
     (run (initial_system True) (to_unlock_check @ [Settle 0 (IsBootloaderUnlockedDone ?dev)])) = Some ERROR"
    by (simp add: run_append)
  from A B C D show ?thesis by simp
qed

end
